theory Spec2Isabelle
  imports Main "HOL-Library.Word"
begin

unbundle bit_operations_syntax

section \<open>Atomic operation unit (atomic\_unit.sv)\<close>

text \<open>
  The eleven named values of \<open>atomic_op_e\<close>. The four-bit codes 11 to 15 carry no name; the
  \<open>default\<close> branch of \<open>perform_atomic_op\<close>, which returns the original value, is only
  reached for them.
\<close>

datatype atomic_op_e =
  ATOMIC_ADD | ATOMIC_SUB | ATOMIC_EXCH | ATOMIC_MIN | ATOMIC_MAX | ATOMIC_AND
  | ATOMIC_OR | ATOMIC_XOR | ATOMIC_CAS | ATOMIC_INC | ATOMIC_DEC

record atomic_request_t =
  rq_address :: "32 word"
  rq_data :: "32 word"
  rq_compare_data :: "32 word"
  rq_op :: atomic_op_e
  rq_warp_id :: "6 word"
  rq_lane_id :: "5 word"
  rq_valid :: bool

datatype atomic_state_e = IDLE | READ_MEM | COMPUTE | WRITE_MEM | RESPOND

text \<open>
  The registers of the module. The module parameter \<open>MAX_PENDING_REQS\<close> (16 by default,
  8 in the instance of the test bench) is an argument of the functions that read it. The
  fixed-size arrays \<open>active_addresses\<close> and \<open>address_valid\<close> are indexed by
  \<open>0 ..< MAX_PENDING_REQS\<close>; the loops of the source never leave that range.
\<close>

record atomic_unit =
  pending_reqs :: "atomic_request_t list"
  current_req :: atomic_request_t
  current_state :: atomic_state_e
  temp_data :: "32 word"
  orig_data :: "32 word"
  active_addresses :: "nat \<Rightarrow> 32 word"
  address_valid :: "nat \<Rightarrow> bool"
  resp_data :: "32 word"
  resp_warp_id :: "6 word"
  resp_lane_id :: "5 word"
  resp_valid :: bool
  mem_address :: "32 word"
  mem_write_data :: "32 word"
  mem_write_en :: bool
  mem_atomic_en :: bool
  mem_atomic_op :: atomic_op_e
  mem_request_valid :: bool
  atomic_op_count :: "32 word"
  atomic_contention_count :: "32 word"

text \<open>The inputs sampled at one rising clock edge (\<open>rst_n\<close> high).\<close>

record atomic_inputs =
  req_op :: atomic_op_e
  req_address :: "32 word"
  req_data :: "32 word"
  req_compare_data :: "32 word"
  req_warp_id :: "6 word"
  req_lane_id :: "5 word"
  req_valid :: bool
  resp_ready :: bool
  mem_read_data :: "32 word"
  mem_response_valid :: bool
  mem_ready :: bool

text \<open>
  \<open>for (int i = 0; i < n; i++) if (P i) ... break;\<close>: the first index of \<open>lo ..< lo + n\<close>
  that satisfies the test.
\<close>

fun first_index :: "(nat \<Rightarrow> bool) \<Rightarrow> nat \<Rightarrow> nat \<Rightarrow> nat option" where
  "first_index P lo 0 = None"
| "first_index P lo (Suc n) = (if P lo then Some lo else first_index P (Suc lo) n)"

text \<open>
  The three tracking functions read and write the module arrays \<open>active_addresses\<close> and
  \<open>address_valid\<close> only; they take and return that pair.
\<close>

type_synonym tracking = "(nat \<Rightarrow> 32 word) \<times> (nat \<Rightarrow> bool)"

definition check_contention :: "nat \<Rightarrow> tracking \<Rightarrow> 32 word \<Rightarrow> bool" where
  "check_contention MAX_PENDING_REQS t a =
     (case first_index (\<lambda>i. snd t i \<and> fst t i = a) 0 MAX_PENDING_REQS of
        None \<Rightarrow> False
      | Some i \<Rightarrow> True)"

definition add_address :: "nat \<Rightarrow> 32 word \<Rightarrow> tracking \<Rightarrow> tracking" where
  "add_address MAX_PENDING_REQS a t =
     (case first_index (\<lambda>i. \<not> snd t i) 0 MAX_PENDING_REQS of
        None \<Rightarrow> t
      | Some i \<Rightarrow> ((fst t)(i := a), (snd t)(i := True)))"

definition remove_address :: "nat \<Rightarrow> 32 word \<Rightarrow> tracking \<Rightarrow> tracking" where
  "remove_address MAX_PENDING_REQS a t =
     (case first_index (\<lambda>i. snd t i \<and> fst t i = a) 0 MAX_PENDING_REQS of
        None \<Rightarrow> t
      | Some i \<Rightarrow> (fst t, (snd t)(i := False)))"

definition tracking_of :: "atomic_unit \<Rightarrow> tracking" where
  "tracking_of s = (active_addresses s, address_valid s)"

definition set_tracking :: "tracking \<Rightarrow> atomic_unit \<Rightarrow> atomic_unit" where
  "set_tracking t s = s\<lparr>active_addresses := fst t, address_valid := snd t\<rparr>"

text \<open>The operands are \<open>logic [31:0]\<close>: the comparisons of MIN and MAX are unsigned.\<close>

fun perform_atomic_op :: "atomic_op_e \<Rightarrow> 32 word \<Rightarrow> 32 word \<Rightarrow> 32 word \<Rightarrow> 32 word" where
  "perform_atomic_op ATOMIC_ADD orig_val new_val compare_val = orig_val + new_val"
| "perform_atomic_op ATOMIC_SUB orig_val new_val compare_val = orig_val - new_val"
| "perform_atomic_op ATOMIC_EXCH orig_val new_val compare_val = new_val"
| "perform_atomic_op ATOMIC_MIN orig_val new_val compare_val =
     (if orig_val < new_val then orig_val else new_val)"
| "perform_atomic_op ATOMIC_MAX orig_val new_val compare_val =
     (if orig_val > new_val then orig_val else new_val)"
| "perform_atomic_op ATOMIC_AND orig_val new_val compare_val = orig_val AND new_val"
| "perform_atomic_op ATOMIC_OR orig_val new_val compare_val = orig_val OR new_val"
| "perform_atomic_op ATOMIC_XOR orig_val new_val compare_val = orig_val XOR new_val"
| "perform_atomic_op ATOMIC_CAS orig_val new_val compare_val =
     (if orig_val = compare_val then new_val else orig_val)"
| "perform_atomic_op ATOMIC_INC orig_val new_val compare_val = orig_val + 1"
| "perform_atomic_op ATOMIC_DEC orig_val new_val compare_val = orig_val - 1"

text \<open>\<open>assign req_ready = (current_state == IDLE) && (pending_reqs.size() < MAX_PENDING_REQS)\<close>\<close>

definition req_ready :: "nat \<Rightarrow> atomic_unit \<Rightarrow> bool" where
  "req_ready MAX_PENDING_REQS s \<longleftrightarrow>
     current_state s = IDLE \<and> length (pending_reqs s) < MAX_PENDING_REQS"

definition new_req_of :: "atomic_inputs \<Rightarrow> atomic_request_t" where
  "new_req_of i =
     \<lparr>rq_address = req_address i, rq_data = req_data i, rq_compare_data = req_compare_data i,
      rq_op = req_op i, rq_warp_id = req_warp_id i, rq_lane_id = req_lane_id i,
      rq_valid = True\<rparr>"

text \<open>
  The queue is declared \<open>[$:MAX_PENDING_REQS-1]\<close>: a \<open>push_back\<close> on a full queue leaves it
  as it is.
\<close>

definition push_back :: "nat \<Rightarrow> atomic_request_t \<Rightarrow> atomic_request_t list \<Rightarrow> atomic_request_t list" where
  "push_back MAX_PENDING_REQS r q = (if length q < MAX_PENDING_REQS then q @ [r] else q)"

text \<open>One rising clock edge of the main \<open>always_ff\<close> block with \<open>rst_n\<close> high.\<close>

definition atomic_step :: "nat \<Rightarrow> atomic_inputs \<Rightarrow> atomic_unit \<Rightarrow> atomic_unit" where
  "atomic_step MAX_PENDING_REQS i s =
     (case current_state s of
        IDLE \<Rightarrow>
          (let s1 = s\<lparr>resp_valid := False\<rparr> in
           if req_valid i \<and> req_ready MAX_PENDING_REQS s then
             (if check_contention MAX_PENDING_REQS (tracking_of s) (req_address i) then
                s1\<lparr>pending_reqs := push_back MAX_PENDING_REQS (new_req_of i) (pending_reqs s),
                   atomic_contention_count := atomic_contention_count s + 1\<rparr>
              else
                set_tracking (add_address MAX_PENDING_REQS (req_address i) (tracking_of s))
                  (s1\<lparr>current_req := new_req_of i, current_state := READ_MEM,
                      atomic_op_count := atomic_op_count s + 1\<rparr>))
           else
             (case pending_reqs s of
                [] \<Rightarrow> s1
              | r # rest \<Rightarrow>
                  set_tracking (add_address MAX_PENDING_REQS (rq_address r) (tracking_of s))
                    (s1\<lparr>current_req := r, pending_reqs := rest, current_state := READ_MEM,
                        atomic_op_count := atomic_op_count s + 1\<rparr>)))
      | READ_MEM \<Rightarrow>
          (if mem_ready i then
             s\<lparr>mem_address := rq_address (current_req s), mem_write_en := False,
               mem_atomic_en := True, mem_atomic_op := rq_op (current_req s),
               mem_request_valid := True, current_state := COMPUTE\<rparr>
           else s)
      | COMPUTE \<Rightarrow>
          (if mem_response_valid i then
             s\<lparr>mem_request_valid := False, orig_data := mem_read_data i,
               temp_data := perform_atomic_op (rq_op (current_req s)) (mem_read_data i)
                              (rq_data (current_req s)) (rq_compare_data (current_req s)),
               current_state := WRITE_MEM\<rparr>
           else s)
      | WRITE_MEM \<Rightarrow>
          (if mem_ready i then
             s\<lparr>mem_address := rq_address (current_req s), mem_write_data := temp_data s,
               mem_write_en := True, mem_atomic_en := True,
               mem_atomic_op := rq_op (current_req s), mem_request_valid := True,
               current_state := RESPOND\<rparr>
           else s)
      | RESPOND \<Rightarrow>
          (if mem_response_valid i then
             set_tracking
               (remove_address MAX_PENDING_REQS (rq_address (current_req s)) (tracking_of s))
               (s\<lparr>mem_request_valid := False, resp_data := orig_data s,
                  resp_warp_id := rq_warp_id (current_req s),
                  resp_lane_id := rq_lane_id (current_req s), resp_valid := True,
                  current_state := IDLE\<rparr>)
           else s))"

text \<open>
  The reset branch. The memory-port and response registers other than \<open>resp_valid\<close> are not
  assigned at reset; they are taken as zero, and \<open>mem_request_valid\<close> as low.
\<close>

definition atomic_reset :: atomic_unit where
  "atomic_reset =
     \<lparr>pending_reqs = [],
      current_req = \<lparr>rq_address = 0, rq_data = 0, rq_compare_data = 0, rq_op = ATOMIC_ADD,
                     rq_warp_id = 0, rq_lane_id = 0, rq_valid = False\<rparr>,
      current_state = IDLE, temp_data = 0, orig_data = 0,
      active_addresses = (\<lambda>i. 0), address_valid = (\<lambda>i. False),
      resp_data = 0, resp_warp_id = 0, resp_lane_id = 0, resp_valid = False,
      mem_address = 0, mem_write_data = 0, mem_write_en = False, mem_atomic_en = False,
      mem_atomic_op = ATOMIC_ADD, mem_request_valid = False,
      atomic_op_count = 0, atomic_contention_count = 0\<rparr>"

subsection \<open>The unit with the memory process of its test bench (tb\_atomic\_unit)\<close>

text \<open>
  The module reaches memory only through its \<open>mem_*\<close> port, and the one process of the
  repository that answers at that port is "Memory response logic" of \<open>tb_atomic_unit\<close>: an
  array \<open>logic [31:0] memory [0:1023]\<close> indexed by \<open>mem_address[11:2]\<close>, and the registers
  \<open>mem_read_data\<close> and \<open>mem_response_valid\<close>, assigned at the rising clock edge and so seen
  by the unit one edge later.
\<close>

record memory_process =
  memory :: "10 word \<Rightarrow> 32 word"
  tb_mem_read_data :: "32 word"
  tb_mem_response_valid :: bool

text \<open>\<open>mem_address[11:2]\<close>\<close>

definition word_index :: "32 word \<Rightarrow> 10 word" where
  "word_index a = ucast (drop_bit 2 a)"

text \<open>
  One rising clock edge of the memory process. It reads the outputs of the unit as they
  were before the edge (they are assigned without blocking) and the variable \<open>mem_ready\<close>.
\<close>

definition memory_response :: "atomic_unit \<Rightarrow> bool \<Rightarrow> memory_process \<Rightarrow> memory_process" where
  "memory_response u ready p =
     (if mem_request_valid u \<and> ready then
        (if \<not> mem_write_en u then
           p\<lparr>tb_mem_read_data := memory p (word_index (mem_address u)),
             tb_mem_response_valid := True\<rparr>
         else
           p\<lparr>memory := (memory p)(word_index (mem_address u) := mem_write_data u),
             tb_mem_response_valid := True\<rparr>)
      else p\<lparr>tb_mem_response_valid := False\<rparr>)"

text \<open>
  What the test bench drives in one cycle: the request lines, \<open>resp_ready\<close> and
  \<open>mem_ready\<close>. The test bench sets \<open>mem_ready\<close> to 1 once; here it may change from cycle to
  cycle.
\<close>

record bench_inputs =
  r_op :: atomic_op_e
  r_address :: "32 word"
  r_data :: "32 word"
  r_compare_data :: "32 word"
  r_warp_id :: "6 word"
  r_lane_id :: "5 word"
  r_valid :: bool
  r_resp_ready :: bool
  r_mem_ready :: bool

text \<open>One rising clock edge of the memory process and of the unit together.\<close>

definition bench_step :: "nat \<Rightarrow> bench_inputs \<Rightarrow> memory_process \<times> atomic_unit \<Rightarrow> memory_process \<times> atomic_unit" where
  "bench_step MAX_PENDING_REQS b ps =
     (case ps of (p, u) \<Rightarrow>
        (memory_response u (r_mem_ready b) p,
         atomic_step MAX_PENDING_REQS
           \<lparr>req_op = r_op b, req_address = r_address b, req_data = r_data b,
            req_compare_data = r_compare_data b, req_warp_id = r_warp_id b,
            req_lane_id = r_lane_id b, req_valid = r_valid b,
            resp_ready = r_resp_ready b, mem_read_data = tb_mem_read_data p,
            mem_response_valid = tb_mem_response_valid p, mem_ready = r_mem_ready b\<rparr> u))"

fun bench_run :: "nat \<Rightarrow> bench_inputs list \<Rightarrow> memory_process \<times> atomic_unit \<Rightarrow> memory_process \<times> atomic_unit" where
  "bench_run MAX_PENDING_REQS [] ps = ps"
| "bench_run MAX_PENDING_REQS (b # bs) ps =
     bench_run MAX_PENDING_REQS bs (bench_step MAX_PENDING_REQS b ps)"

text \<open>A request presented on the request lines, and a cycle without one.\<close>

definition request :: "atomic_op_e \<Rightarrow> 32 word \<Rightarrow> 32 word \<Rightarrow> 32 word \<Rightarrow> 6 word \<Rightarrow> 5 word \<Rightarrow> bool \<Rightarrow> bench_inputs" where
  "request opc a d c w l ready =
     \<lparr>r_op = opc, r_address = a, r_data = d, r_compare_data = c, r_warp_id = w,
      r_lane_id = l, r_valid = True, r_resp_ready = True, r_mem_ready = ready\<rparr>"

definition no_request :: "bool \<Rightarrow> bench_inputs" where
  "no_request ready =
     \<lparr>r_op = ATOMIC_ADD, r_address = 0, r_data = 0, r_compare_data = 0, r_warp_id = 0,
      r_lane_id = 0, r_valid = False, r_resp_ready = True, r_mem_ready = ready\<rparr>"

text \<open>
  The cycles of one transaction after the cycle of the request. The unit waits in
  \<open>READ_MEM\<close> while \<open>mem_ready\<close> is low (\<open>w1\<close>) and issues the read when it is high (\<open>g1\<close>);
  the memory process answers to the read at the first edge with \<open>mem_ready\<close> high (\<open>g2\<close>,
  after \<open>w2\<close>) and the unit takes the answer one edge later (\<open>x1\<close>); likewise for the write
  (\<open>w3\<close>, \<open>g3\<close>, \<open>w4\<close>, \<open>g4\<close>, \<open>x2\<close>). With \<open>mem_ready\<close> high throughout, as in the test
  bench, the four lists of waiting cycles are empty and the transaction takes seven edges.
\<close>

definition transaction_cycles :: "bench_inputs list \<Rightarrow> bench_inputs \<Rightarrow> bench_inputs list \<Rightarrow> bench_inputs
    \<Rightarrow> bench_inputs \<Rightarrow> bench_inputs list \<Rightarrow> bench_inputs \<Rightarrow> bench_inputs list \<Rightarrow> bench_inputs
    \<Rightarrow> bench_inputs \<Rightarrow> bench_inputs list" where
  "transaction_cycles w1 g1 w2 g2 x1 w3 g3 w4 g4 x2 =
     w1 @ [g1] @ w2 @ [g2, x1] @ w3 @ [g3] @ w4 @ [g4, x2]"

definition memory_waits :: "bench_inputs list \<Rightarrow> bench_inputs \<Rightarrow> bench_inputs list \<Rightarrow> bench_inputs
    \<Rightarrow> bench_inputs list \<Rightarrow> bench_inputs \<Rightarrow> bench_inputs list \<Rightarrow> bench_inputs \<Rightarrow> bool" where
  "memory_waits w1 g1 w2 g2 w3 g3 w4 g4 \<longleftrightarrow>
     list_all (\<lambda>b. \<not> r_mem_ready b) (w1 @ w2 @ w3 @ w4)
     \<and> r_mem_ready g1 \<and> r_mem_ready g2 \<and> r_mem_ready g3 \<and> r_mem_ready g4"

text \<open>The memory of the test bench at the start: word \<open>i\<close> holds \<open>i\<close>.\<close>

definition bench_memory :: memory_process where
  "bench_memory =
     \<lparr>memory = (\<lambda>i. ucast i), tb_mem_read_data = 0, tb_mem_response_valid = False\<rparr>"

text \<open>
  The table of the specification, row by row: the value left in memory by an operation
  with pre-image \<open>pre\<close>, operand \<open>d\<close> and compare value \<open>c\<close>.
\<close>

fun f_op :: "atomic_op_e \<Rightarrow> 32 word \<Rightarrow> 32 word \<Rightarrow> 32 word \<Rightarrow> 32 word" where
  "f_op ATOMIC_ADD pre d c = pre + d"
| "f_op ATOMIC_SUB pre d c = pre - d"
| "f_op ATOMIC_EXCH pre d c = d"
| "f_op ATOMIC_MIN pre d c = min pre d"
| "f_op ATOMIC_MAX pre d c = max pre d"
| "f_op ATOMIC_AND pre d c = pre AND d"
| "f_op ATOMIC_OR pre d c = pre OR d"
| "f_op ATOMIC_XOR pre d c = pre XOR d"
| "f_op ATOMIC_CAS pre d c = (if pre = c then d else pre)"
| "f_op ATOMIC_INC pre d c = pre + 1"
| "f_op ATOMIC_DEC pre d c = pre - 1"

lemma perform_atomic_op_f_op: "perform_atomic_op opc pre d c = f_op opc pre d c"
  by (cases opc) (auto simp: min_def max_def)

subsection \<open>Properties of the atomic unit\<close>

lemma first_index_None: "first_index P lo n = None \<longleftrightarrow> (\<forall>j. lo \<le> j \<and> j < lo + n \<longrightarrow> \<not> P j)"
proof (induction n arbitrary: lo)
  case 0
  then show ?case by auto
next
  case (Suc n)
  show ?case
  proof (cases "P lo")
    case True
    then show ?thesis by auto
  next
    case False
    have "(\<forall>j. Suc lo \<le> j \<and> j < Suc lo + n \<longrightarrow> \<not> P j) \<longleftrightarrow> (\<forall>j. lo \<le> j \<and> j < lo + Suc n \<longrightarrow> \<not> P j)"
      using False by (metis Suc_leD add_Suc add_Suc_right le_antisym not_less_eq_eq)
    with False Suc show ?thesis by simp
  qed
qed

lemma first_index_Some:
  "first_index P lo n = Some i \<Longrightarrow> lo \<le> i \<and> i < lo + n \<and> P i \<and> (\<forall>j. lo \<le> j \<and> j < i \<longrightarrow> \<not> P j)"
proof (induction n arbitrary: lo)
  case 0
  then show ?case by simp
next
  case (Suc n)
  show ?case
  proof (cases "P lo")
    case True
    with Suc.prems show ?thesis by auto
  next
    case False
    with Suc.prems have "first_index P (Suc lo) n = Some i" by simp
    from Suc.IH [OF this] False show ?thesis
      by (metis Suc_leD add_Suc add_Suc_right le_antisym not_less_eq_eq)
  qed
qed

lemma first_index_unique:
  assumes "lo \<le> i" "i < lo + n" "P i" "\<forall>j. lo \<le> j \<and> j < lo + n \<and> j \<noteq> i \<longrightarrow> \<not> P j"
  shows "first_index P lo n = Some i"
proof (cases "first_index P lo n")
  case None
  with assms show ?thesis by (simp add: first_index_None)
next
  case (Some k)
  from first_index_Some [OF Some] assms have "k = i" by blast
  with Some show ?thesis by simp
qed

lemma check_contention_iff:
  "check_contention n t a \<longleftrightarrow> (\<exists>i<n. snd t i \<and> fst t i = a)"
proof (cases "first_index (\<lambda>i. snd t i \<and> fst t i = a) 0 n")
  case None
  from None [unfolded first_index_None]
  have "\<not> (\<exists>i<n. snd t i \<and> fst t i = a)" by simp
  with None show ?thesis by (simp add: check_contention_def)
next
  case (Some k)
  from first_index_Some [OF Some] Some show ?thesis
    by (auto simp: check_contention_def)
qed

lemma remove_add_address:
  assumes "\<not> check_contention n t a"
  shows "\<exists>aa. remove_address n a (add_address n a t) = (aa, snd t) \<and> (\<forall>i. snd t i \<longrightarrow> aa i = fst t i)"
proof -
  have nc: "\<forall>i<n. \<not> (snd t i \<and> fst t i = a)"
    using assms by (simp add: check_contention_iff)
  show ?thesis
  proof (cases "first_index (\<lambda>i. \<not> snd t i) 0 n")
    case None
    then have "add_address n a t = t" by (simp add: add_address_def)
    moreover have "remove_address n a t = t"
      using nc by (simp add: remove_address_def first_index_None [THEN iffD2])
    ultimately show ?thesis by (cases t) simp
  next
    case (Some k)
    from first_index_Some [OF Some] have k: "k < n" "\<not> snd t k" by auto
    let ?t1 = "((fst t)(k := a), (snd t)(k := True))"
    have t1: "add_address n a t = ?t1" using Some by (simp add: add_address_def)
    have "first_index (\<lambda>i. snd ?t1 i \<and> fst ?t1 i = a) 0 n = Some k"
      using k nc by (intro first_index_unique) auto
    then have "remove_address n a ?t1 = (fst ?t1, (snd ?t1)(k := False))"
      by (simp add: remove_address_def)
    moreover have "(snd ?t1)(k := False) = snd t" using k by (auto simp: fun_eq_iff)
    ultimately show ?thesis using t1 k by auto
  qed
qed

lemma check_contention_cong:
  "snd t' = snd t \<Longrightarrow> (\<forall>i. snd t i \<longrightarrow> fst t' i = fst t i) \<Longrightarrow> check_contention n t' b = check_contention n t b"
  by (auto simp: check_contention_iff)

lemma bench_run_append: "bench_run n (xs @ ys) ps = bench_run n ys (bench_run n xs ps)"
  by (induction xs arbitrary: ps) simp_all

lemma quiet_memory: "\<not> tb_mem_response_valid p \<Longrightarrow> p\<lparr>tb_mem_response_valid := False\<rparr> = p"
  by (cases p) simp

lemma stall:
  assumes "current_state u \<noteq> IDLE" and "\<not> tb_mem_response_valid p"
    and "list_all (\<lambda>b. \<not> r_mem_ready b) w"
  shows "bench_run n w (p, u) = (p, u)"
  using assms(3)
proof (induction w)
  case Nil
  show ?case by simp
next
  case (Cons b w)
  then have nr: "\<not> r_mem_ready b" and rest: "list_all (\<lambda>b. \<not> r_mem_ready b) w" by simp_all
  have "bench_step n b (p, u) = (p, u)"
    using assms(1,2) nr
    by (cases "current_state u")
      (simp_all add: bench_step_def memory_response_def atomic_step_def quiet_memory)
  with Cons.IH [OF rest] show ?case by simp
qed

lemma issue_step:
  assumes "current_state u = READ_MEM \<or> current_state u = WRITE_MEM"
    and "\<not> mem_request_valid u" and "\<not> r_mem_ready b"
  shows "bench_step n b (p, u) = (p\<lparr>tb_mem_response_valid := False\<rparr>, u)"
  using assms by (auto simp: bench_step_def memory_response_def atomic_step_def)

lemma read_issue:
  assumes "current_state u = READ_MEM" and "\<not> mem_request_valid u"
    and "list_all (\<lambda>b. \<not> r_mem_ready b) w" and "r_mem_ready g"
  shows "bench_run n (w @ g # rest) (p, u)
     = bench_run n rest
         (p\<lparr>tb_mem_response_valid := False\<rparr>,
          u\<lparr>mem_address := rq_address (current_req u), mem_write_en := False,
            mem_atomic_en := True, mem_atomic_op := rq_op (current_req u),
            mem_request_valid := True, current_state := COMPUTE\<rparr>)"
  using assms(3)
proof (induction w arbitrary: p)
  case Nil
  show ?case using assms(1,2,4)
    by (simp add: bench_step_def memory_response_def atomic_step_def)
next
  case (Cons b w)
  then have nr: "\<not> r_mem_ready b" and rest: "list_all (\<lambda>b. \<not> r_mem_ready b) w" by simp_all
  from issue_step [of u b n p] assms(1,2) nr
  have "bench_step n b (p, u) = (p\<lparr>tb_mem_response_valid := False\<rparr>, u)" by simp
  with Cons.IH [OF rest, of "p\<lparr>tb_mem_response_valid := False\<rparr>"] show ?case by simp
qed

lemma write_issue:
  assumes "current_state u = WRITE_MEM" and "\<not> mem_request_valid u"
    and "list_all (\<lambda>b. \<not> r_mem_ready b) w" and "r_mem_ready g"
  shows "bench_run n (w @ g # rest) (p, u)
     = bench_run n rest
         (p\<lparr>tb_mem_response_valid := False\<rparr>,
          u\<lparr>mem_address := rq_address (current_req u), mem_write_data := temp_data u,
            mem_write_en := True, mem_atomic_en := True,
            mem_atomic_op := rq_op (current_req u), mem_request_valid := True,
            current_state := RESPOND\<rparr>)"
  using assms(3)
proof (induction w arbitrary: p)
  case Nil
  show ?case using assms(1,2,4)
    by (simp add: bench_step_def memory_response_def atomic_step_def)
next
  case (Cons b w)
  then have nr: "\<not> r_mem_ready b" and rest: "list_all (\<lambda>b. \<not> r_mem_ready b) w" by simp_all
  from issue_step [of u b n p] assms(1,2) nr
  have "bench_step n b (p, u) = (p\<lparr>tb_mem_response_valid := False\<rparr>, u)" by simp
  with Cons.IH [OF rest, of "p\<lparr>tb_mem_response_valid := False\<rparr>"] show ?case by simp
qed

lemma read_answer:
  assumes "current_state u = COMPUTE" and "mem_request_valid u" and "\<not> mem_write_en u"
    and "\<not> tb_mem_response_valid p"
    and "list_all (\<lambda>b. \<not> r_mem_ready b) w" and "r_mem_ready g"
  shows "bench_run n (w @ g # x # rest) (p, u)
     = bench_run n rest
         (p\<lparr>tb_mem_read_data := memory p (word_index (mem_address u)),
            tb_mem_response_valid := r_mem_ready x\<rparr>,
          u\<lparr>mem_request_valid := False,
            orig_data := memory p (word_index (mem_address u)),
            temp_data := perform_atomic_op (rq_op (current_req u))
                           (memory p (word_index (mem_address u)))
                           (rq_data (current_req u)) (rq_compare_data (current_req u)),
            current_state := WRITE_MEM\<rparr>)"
proof -
  have ne: "current_state u \<noteq> IDLE" using assms(1) by simp
  have "bench_run n (w @ g # x # rest) (p, u) = bench_run n (g # x # rest) (bench_run n w (p, u))"
    by (rule bench_run_append)
  also have "\<dots> = bench_run n (g # x # rest) (p, u)"
    by (simp add: stall [OF ne assms(4,5)])
  also have "\<dots> = bench_run n rest (bench_step n x (bench_step n g (p, u)))" by simp
  also have "bench_step n g (p, u)
      = (p\<lparr>tb_mem_read_data := memory p (word_index (mem_address u)),
            tb_mem_response_valid := True\<rparr>, u)"
    using assms(1-4,6) by (simp add: bench_step_def memory_response_def atomic_step_def)
  also have "bench_step n x
        (p\<lparr>tb_mem_read_data := memory p (word_index (mem_address u)),
            tb_mem_response_valid := True\<rparr>, u)
      = (p\<lparr>tb_mem_read_data := memory p (word_index (mem_address u)),
            tb_mem_response_valid := r_mem_ready x\<rparr>,
         u\<lparr>mem_request_valid := False,
            orig_data := memory p (word_index (mem_address u)),
            temp_data := perform_atomic_op (rq_op (current_req u))
                           (memory p (word_index (mem_address u)))
                           (rq_data (current_req u)) (rq_compare_data (current_req u)),
            current_state := WRITE_MEM\<rparr>)"
    using assms(1-3) by (simp add: bench_step_def memory_response_def atomic_step_def)
  finally show ?thesis .
qed

lemma write_answer:
  assumes "current_state u = RESPOND" and "mem_request_valid u" and "mem_write_en u"
    and "\<not> tb_mem_response_valid p"
    and "list_all (\<lambda>b. \<not> r_mem_ready b) w" and "r_mem_ready g"
  shows "bench_run n (w @ g # x # rest) (p, u)
     = bench_run n rest
         (p\<lparr>memory := (memory p)(word_index (mem_address u) := mem_write_data u),
            tb_mem_response_valid := r_mem_ready x\<rparr>,
          set_tracking (remove_address n (rq_address (current_req u)) (tracking_of u))
            (u\<lparr>mem_request_valid := False, resp_data := orig_data u,
               resp_warp_id := rq_warp_id (current_req u),
               resp_lane_id := rq_lane_id (current_req u), resp_valid := True,
               current_state := IDLE\<rparr>))"
proof -
  have ne: "current_state u \<noteq> IDLE" using assms(1) by simp
  have "bench_run n (w @ g # x # rest) (p, u) = bench_run n (g # x # rest) (bench_run n w (p, u))"
    by (rule bench_run_append)
  also have "\<dots> = bench_run n (g # x # rest) (p, u)"
    by (simp add: stall [OF ne assms(4,5)])
  also have "\<dots> = bench_run n rest (bench_step n x (bench_step n g (p, u)))" by simp
  also have "bench_step n g (p, u)
      = (p\<lparr>memory := (memory p)(word_index (mem_address u) := mem_write_data u),
            tb_mem_response_valid := True\<rparr>, u)"
    using assms(1-4,6) by (simp add: bench_step_def memory_response_def atomic_step_def)
  also have "bench_step n x
        (p\<lparr>memory := (memory p)(word_index (mem_address u) := mem_write_data u),
            tb_mem_response_valid := True\<rparr>, u)
      = (p\<lparr>memory := (memory p)(word_index (mem_address u) := mem_write_data u),
            tb_mem_response_valid := r_mem_ready x\<rparr>,
         set_tracking (remove_address n (rq_address (current_req u)) (tracking_of u))
            (u\<lparr>mem_request_valid := False, resp_data := orig_data u,
               resp_warp_id := rq_warp_id (current_req u),
               resp_lane_id := rq_lane_id (current_req u), resp_valid := True,
               current_state := IDLE\<rparr>))"
    using assms(1-3)
    by (simp add: bench_step_def memory_response_def atomic_step_def tracking_of_def
        set_tracking_def)
  finally show ?thesis .
qed

lemma atomic_transaction:
  assumes idle: "current_state u = IDLE"
    and room: "length (pending_reqs u) < n"
    and quiet: "\<not> mem_request_valid u"
    and free: "\<not> check_contention n (tracking_of u) a"
    and waits: "memory_waits w1 g1 w2 g2 w3 g3 w4 g4"
  shows "\<exists>p' u'. bench_run n (request opc a d c w l rdy
                      # transaction_cycles w1 g1 w2 g2 x1 w3 g3 w4 g4 x2) (p, u) = (p', u')
           \<and> memory p' = (memory p)(word_index a := f_op opc (memory p (word_index a)) d c)
           \<and> resp_valid u' \<and> resp_data u' = memory p (word_index a)
           \<and> resp_warp_id u' = w \<and> resp_lane_id u' = l
           \<and> current_state u' = IDLE \<and> pending_reqs u' = pending_reqs u
           \<and> \<not> mem_request_valid u'
           \<and> (\<forall>b. check_contention n (tracking_of u') b = check_contention n (tracking_of u) b)"
proof -
  from waits have w: "list_all (\<lambda>b. \<not> r_mem_ready b) w1" "list_all (\<lambda>b. \<not> r_mem_ready b) w2"
    "list_all (\<lambda>b. \<not> r_mem_ready b) w3" "list_all (\<lambda>b. \<not> r_mem_ready b) w4"
    and g: "r_mem_ready g1" "r_mem_ready g2" "r_mem_ready g3" "r_mem_ready g4"
    by (simp_all add: memory_waits_def)
  obtain aa where aa: "remove_address n a (add_address n a (tracking_of u)) = (aa, address_valid u)"
    "\<forall>i. address_valid u i \<longrightarrow> aa i = active_addresses u i"
    using remove_add_address [OF free] by (auto simp: tracking_of_def)
  have cc: "\<forall>b. check_contention n (aa, address_valid u) b = check_contention n (tracking_of u) b"
    using aa(2) by (intro allI check_contention_cong) (auto simp: tracking_of_def)
  let ?pre = "memory p (word_index a)"
  let ?r = "\<lparr>rq_address = a, rq_data = d, rq_compare_data = c, rq_op = opc, rq_warp_id = w,
             rq_lane_id = l, rq_valid = True\<rparr>"
  let ?p1 = "p\<lparr>tb_mem_response_valid := False\<rparr>"
  let ?u1 = "set_tracking (add_address n a (tracking_of u))
               (u\<lparr>resp_valid := False, current_req := ?r, current_state := READ_MEM,
                  atomic_op_count := atomic_op_count u + 1\<rparr>)"
  have s1: "bench_step n (request opc a d c w l rdy) (p, u) = (?p1, ?u1)"
    using idle room quiet free
    by (simp add: bench_step_def memory_response_def atomic_step_def request_def req_ready_def
        new_req_of_def Let_def)
  have u1: "current_state ?u1 = READ_MEM" "\<not> mem_request_valid ?u1" "current_req ?u1 = ?r"
    using quiet by (simp_all add: set_tracking_def)
  let ?u2 = "?u1\<lparr>mem_address := a, mem_write_en := False, mem_atomic_en := True,
                 mem_atomic_op := opc, mem_request_valid := True, current_state := COMPUTE\<rparr>"
  have u2: "current_state ?u2 = COMPUTE" "mem_request_valid ?u2" "\<not> mem_write_en ?u2"
    "mem_address ?u2 = a" "current_req ?u2 = ?r"
    by (simp_all add: set_tracking_def)
  have p1: "\<not> tb_mem_response_valid ?p1" "memory ?p1 = memory p" by simp_all
  let ?p3 = "?p1\<lparr>tb_mem_read_data := ?pre, tb_mem_response_valid := r_mem_ready x1\<rparr>"
  let ?u3 = "?u2\<lparr>mem_request_valid := False, orig_data := ?pre,
                 temp_data := perform_atomic_op opc ?pre d c, current_state := WRITE_MEM\<rparr>"
  have u3: "current_state ?u3 = WRITE_MEM" "\<not> mem_request_valid ?u3" "current_req ?u3 = ?r"
    "temp_data ?u3 = perform_atomic_op opc ?pre d c" "orig_data ?u3 = ?pre"
    by (simp_all add: set_tracking_def)
  let ?p4 = "?p3\<lparr>tb_mem_response_valid := False\<rparr>"
  let ?u4 = "?u3\<lparr>mem_address := a, mem_write_data := perform_atomic_op opc ?pre d c,
                 mem_write_en := True, mem_atomic_en := True, mem_atomic_op := opc,
                 mem_request_valid := True, current_state := RESPOND\<rparr>"
  have u4: "current_state ?u4 = RESPOND" "mem_request_valid ?u4" "mem_write_en ?u4"
    "mem_address ?u4 = a" "current_req ?u4 = ?r"
    "mem_write_data ?u4 = perform_atomic_op opc ?pre d c" "orig_data ?u4 = ?pre"
    "tracking_of ?u4 = add_address n a (tracking_of u)" "pending_reqs ?u4 = pending_reqs u"
    by (simp_all add: set_tracking_def tracking_of_def)
  have p4: "\<not> tb_mem_response_valid ?p4" "memory ?p4 = memory p" by simp_all
  let ?p5 = "?p4\<lparr>memory := (memory p)(word_index a := perform_atomic_op opc ?pre d c),
                 tb_mem_response_valid := r_mem_ready x2\<rparr>"
  let ?u5 = "set_tracking (remove_address n a (tracking_of ?u4))
               (?u4\<lparr>mem_request_valid := False, resp_data := ?pre, resp_warp_id := w,
                    resp_lane_id := l, resp_valid := True, current_state := IDLE\<rparr>)"
  have "bench_run n (request opc a d c w l rdy
                      # transaction_cycles w1 g1 w2 g2 x1 w3 g3 w4 g4 x2) (p, u)
      = bench_run n (w1 @ g1 # w2 @ g2 # x1 # w3 @ g3 # w4 @ g4 # x2 # []) (?p1, ?u1)"
    using s1 by (simp add: transaction_cycles_def)
  also have "\<dots> = bench_run n (w2 @ g2 # x1 # w3 @ g3 # w4 @ g4 # x2 # []) (?p1, ?u2)"
    using read_issue [OF u1(1,2) w(1) g(1), of n "w2 @ g2 # x1 # w3 @ g3 # w4 @ g4 # x2 # []" ?p1]
    by (simp add: u1(3) set_tracking_def)
  also have "\<dots> = bench_run n (w3 @ g3 # w4 @ g4 # x2 # []) (?p3, ?u3)"
    using read_answer [OF u2(1,2,3) p1(1) w(2) g(2), of n x1 "w3 @ g3 # w4 @ g4 # x2 # []"]
    by (simp add: u2(4,5) set_tracking_def)
  also have "\<dots> = bench_run n (w4 @ g4 # x2 # []) (?p4, ?u4)"
    using write_issue [OF u3(1,2) w(3) g(3), of n "w4 @ g4 # x2 # []" ?p3]
    by (simp add: u3(3,4) set_tracking_def)
  also have "\<dots> = bench_run n [] (?p5, ?u5)"
    using write_answer [OF u4(1,2,3) p4(1) w(4) g(4), of n x2 "[]"]
    by (simp add: u4(4,5,6,7) set_tracking_def)
  finally have run: "bench_run n (request opc a d c w l rdy
                      # transaction_cycles w1 g1 w2 g2 x1 w3 g3 w4 g4 x2) (p, u) = (?p5, ?u5)"
    by simp
  have t5: "tracking_of ?u5 = (aa, address_valid u)"
    using aa(1) by (simp add: u4(8) set_tracking_def tracking_of_def)
  have "memory ?p5 = (memory p)(word_index a := f_op opc ?pre d c)"
    by (simp add: perform_atomic_op_f_op)
  moreover have "resp_valid ?u5" "resp_data ?u5 = ?pre" "resp_warp_id ?u5 = w"
    "resp_lane_id ?u5 = l" "current_state ?u5 = IDLE" "pending_reqs ?u5 = pending_reqs u"
    "\<not> mem_request_valid ?u5"
    by (simp_all add: set_tracking_def)
  moreover have "\<forall>b. check_contention n (tracking_of ?u5) b = check_contention n (tracking_of u) b"
    unfolding t5 by (rule cc)
  ultimately show ?thesis using run by blast
qed

text \<open>
  What holds of the unit in every state it reaches from reset, whatever it is given: the
  queue is empty, no request is on the memory port while the unit is idle, in the idle
  state no address is tracked, and in the other states the address of the current request
  is tracked in slot 0 and no other is.
\<close>

definition unit_inv :: "nat \<Rightarrow> atomic_unit \<Rightarrow> bool" where
  "unit_inv n u \<longleftrightarrow>
     pending_reqs u = []
     \<and> (if current_state u = IDLE
         then \<not> mem_request_valid u \<and> (\<forall>i<n. \<not> address_valid u i)
         else 0 < n \<and> (\<forall>i<n. address_valid u i \<longleftrightarrow> i = 0)
              \<and> active_addresses u 0 = rq_address (current_req u))"

lemma first_index_zero: "0 < n \<Longrightarrow> P 0 \<Longrightarrow> first_index P 0 n = Some 0"
  by (cases n) simp_all

lemma add_address_free:
  assumes "0 < n" and "\<forall>i<n. \<not> snd t i"
  shows "add_address n a t = ((fst t)(0 := a), (snd t)(0 := True))"
  using assms by (simp add: add_address_def first_index_zero)

lemma remove_address_tracked:
  assumes "0 < n" and "\<forall>i<n. snd t i \<longleftrightarrow> i = 0" and "fst t 0 = a"
  shows "remove_address n a t = (fst t, (snd t)(0 := False))"
  using assms by (simp add: remove_address_def first_index_zero)

lemma unit_inv_reset: "unit_inv n atomic_reset"
  by (simp add: unit_inv_def atomic_reset_def)

lemma unit_inv_step:
  assumes "unit_inv n u"
  shows "unit_inv n (atomic_step n i u)"
proof (cases "current_state u")
  case IDLE
  with assms have inv: "pending_reqs u = []" "\<not> mem_request_valid u" "\<forall>i<n. \<not> address_valid u i"
    by (simp_all add: unit_inv_def)
  from inv(3) have nc: "\<not> check_contention n (tracking_of u) (req_address i)"
    by (auto simp: check_contention_iff tracking_of_def)
  show ?thesis
  proof (cases "req_valid i \<and> req_ready n u")
    case True
    then have n: "0 < n" using inv(1) by (simp add: req_ready_def)
    from add_address_free [OF n, of "tracking_of u" "req_address i"] inv(3)
    have t: "add_address n (req_address i) (tracking_of u)
        = ((active_addresses u)(0 := req_address i), (address_valid u)(0 := True))"
      by (simp add: tracking_of_def)
    show ?thesis
      using IDLE True nc inv n
      by (simp add: atomic_step_def Let_def t set_tracking_def unit_inv_def new_req_of_def)
  next
    case False
    then have "atomic_step n i u = u\<lparr>resp_valid := False\<rparr>"
      using IDLE inv(1) by (auto simp: atomic_step_def Let_def)
    with assms IDLE show ?thesis by (simp add: unit_inv_def)
  qed
next
  case READ_MEM
  with assms show ?thesis by (simp add: atomic_step_def unit_inv_def)
next
  case COMPUTE
  with assms show ?thesis by (simp add: atomic_step_def unit_inv_def)
next
  case WRITE_MEM
  with assms show ?thesis by (simp add: atomic_step_def unit_inv_def)
next
  case RESPOND
  with assms have inv: "pending_reqs u = []" "0 < n" "\<forall>i<n. address_valid u i \<longleftrightarrow> i = 0"
    "active_addresses u 0 = rq_address (current_req u)"
    by (simp_all add: unit_inv_def)
  from remove_address_tracked [OF inv(2), of "tracking_of u" "rq_address (current_req u)"] inv(3,4)
  have t: "remove_address n (rq_address (current_req u)) (tracking_of u)
      = (active_addresses u, (address_valid u)(0 := False))"
    by (simp add: tracking_of_def)
  show ?thesis
  proof (cases "mem_response_valid i")
    case True
    with RESPOND inv show ?thesis
      by (simp add: atomic_step_def t set_tracking_def unit_inv_def)
  next
    case False
    with RESPOND assms show ?thesis by (simp add: atomic_step_def)
  qed
qed

lemma unit_inv_run:
  "unit_inv n (snd ps) \<Longrightarrow> unit_inv n (snd (bench_run n bs ps))"
proof (induction bs arbitrary: ps)
  case Nil
  then show ?case by simp
next
  case (Cons b bs)
  obtain p u where ps: "ps = (p, u)" by (cases ps)
  from Cons.prems ps have "unit_inv n (snd (bench_step n b ps))"
    by (simp add: bench_step_def unit_inv_step)
  from Cons.IH [OF this] show ?case by simp
qed

lemma reached_idle:
  assumes "bench_run n history (p0, atomic_reset) = (q, v)" and "current_state v = IDLE"
    and "0 < n"
  shows "length (pending_reqs v) < n \<and> \<not> mem_request_valid v
         \<and> \<not> check_contention n (tracking_of v) b"
proof -
  from unit_inv_run [of n "(p0, atomic_reset)" history] assms(1)
  have "unit_inv n v" by (simp add: unit_inv_reset)
  with assms(2,3) show ?thesis
    by (auto simp: unit_inv_def check_contention_iff tracking_of_def)
qed

text \<open>
  C1. A request accepted in the idle state is answered after the cycles of its
  transaction, however long the memory process is kept waiting: the value on \<open>resp_data\<close>
  is the word the memory held at the address before the request (the pre-image), and the
  memory then holds \<open>f_op\<close> of the pre-image, the operand and the compare value at that
  address and is unchanged elsewhere. \<open>f_op\<close> is the table of the specification; the run
  uses \<open>perform_atomic_op\<close> of the source. This holds in every idle state in which the
  queue has room, the memory port is quiet and the address is not tracked, and so in
  every idle state the unit and the memory process reach from reset (\<open>history\<close>), for there
  these three conditions hold.
\<close>

theorem atomic_rmw_returns_preimage:
  "(current_state u = IDLE \<and> length (pending_reqs u) < MAX_PENDING_REQS
      \<and> \<not> mem_request_valid u \<and> \<not> check_contention MAX_PENDING_REQS (tracking_of u) a
      \<and> memory_waits w1 g1 w2 g2 w3 g3 w4 g4
    \<or> bench_run MAX_PENDING_REQS history (p0, atomic_reset) = (p, u)
      \<and> current_state u = IDLE \<and> 0 < MAX_PENDING_REQS
      \<and> memory_waits w1 g1 w2 g2 w3 g3 w4 g4)
   \<longrightarrow>
     (case bench_run MAX_PENDING_REQS
             (request opc a d c w l rdy # transaction_cycles w1 g1 w2 g2 x1 w3 g3 w4 g4 x2)
             (p, u) of
        (p', u') \<Rightarrow>
          resp_valid u' \<and> resp_data u' = memory p (word_index a)
          \<and> resp_warp_id u' = w \<and> resp_lane_id u' = l
          \<and> memory p' (word_index a) = f_op opc (memory p (word_index a)) d c
          \<and> (\<forall>i. i \<noteq> word_index a \<longrightarrow> memory p' i = memory p i))"
proof
  assume "current_state u = IDLE \<and> length (pending_reqs u) < MAX_PENDING_REQS
      \<and> \<not> mem_request_valid u \<and> \<not> check_contention MAX_PENDING_REQS (tracking_of u) a
      \<and> memory_waits w1 g1 w2 g2 w3 g3 w4 g4
    \<or> bench_run MAX_PENDING_REQS history (p0, atomic_reset) = (p, u)
      \<and> current_state u = IDLE \<and> 0 < MAX_PENDING_REQS
      \<and> memory_waits w1 g1 w2 g2 w3 g3 w4 g4"
  with reached_idle [of MAX_PENDING_REQS history p0 p u a]
  have h: "current_state u = IDLE" "length (pending_reqs u) < MAX_PENDING_REQS"
    "\<not> mem_request_valid u" "\<not> check_contention MAX_PENDING_REQS (tracking_of u) a"
    "memory_waits w1 g1 w2 g2 w3 g3 w4 g4"
    by blast+
  obtain p' u' where
    "bench_run MAX_PENDING_REQS
       (request opc a d c w l rdy # transaction_cycles w1 g1 w2 g2 x1 w3 g3 w4 g4 x2) (p, u)
     = (p', u')"
    "memory p' = (memory p)(word_index a := f_op opc (memory p (word_index a)) d c)"
    "resp_valid u'" "resp_data u' = memory p (word_index a)" "resp_warp_id u' = w"
    "resp_lane_id u' = l"
    using atomic_transaction [OF h] by blast
  then show "case bench_run MAX_PENDING_REQS
             (request opc a d c w l rdy # transaction_cycles w1 g1 w2 g2 x1 w3 g3 w4 g4 x2)
             (p, u) of
        (p', u') \<Rightarrow>
          resp_valid u' \<and> resp_data u' = memory p (word_index a)
          \<and> resp_warp_id u' = w \<and> resp_lane_id u' = l
          \<and> memory p' (word_index a) = f_op opc (memory p (word_index a)) d c
          \<and> (\<forall>i. i \<noteq> word_index a \<longrightarrow> memory p' i = memory p i)"
    by simp
qed

lemma word_index_256: "word_index 256 = 64"
  by (simp add: word_index_def drop_bit_eq_div)

text \<open>
  The atomic add of the test bench (\<open>test_atomic_add\<close>: 10 is added at address \<open>32'h100\<close>,
  whose word holds 64), after two idle cycles from reset, with \<open>mem_ready\<close> low for one
  cycle in \<open>READ_MEM\<close> and for two in \<open>WRITE_MEM\<close>.
\<close>

theorem atomic_rmw_returns_preimage_witness:
  "bench_run 8 [no_request True, no_request False] (bench_memory, atomic_reset)
     = (bench_memory, atomic_reset)
   \<and> current_state atomic_reset = IDLE \<and> (0::nat) < 8
   \<and> memory_waits [no_request False] (no_request True) [] (no_request True)
        [no_request False, no_request False] (no_request True) [] (no_request True)
   \<and> (case bench_run 8
              (request ATOMIC_ADD 256 10 0 3 2 True
               # transaction_cycles [no_request False] (no_request True) [] (no_request True)
                   (no_request True) [no_request False, no_request False] (no_request True) []
                   (no_request True) (no_request True))
              (bench_memory, atomic_reset) of
         (p', u') \<Rightarrow> resp_valid u' \<and> resp_data u' = 64 \<and> resp_warp_id u' = 3
           \<and> resp_lane_id u' = 2 \<and> memory p' 64 = 74
           \<and> (\<forall>i. i \<noteq> 64 \<longrightarrow> memory p' i = ucast i))"
proof -
  have r: "bench_run 8 [no_request True, no_request False] (bench_memory, atomic_reset)
     = (bench_memory, atomic_reset)"
    by (simp add: bench_step_def memory_response_def atomic_step_def no_request_def
        atomic_reset_def bench_memory_def Let_def)
  have h: "current_state atomic_reset = IDLE" "(0::nat) < 8"
    "memory_waits [no_request False] (no_request True) [] (no_request True)
        [no_request False, no_request False] (no_request True) [] (no_request True)"
    by (simp_all add: atomic_reset_def memory_waits_def no_request_def)
  have m: "memory bench_memory = (\<lambda>i. ucast i)" by (simp add: bench_memory_def)
  from atomic_rmw_returns_preimage [where MAX_PENDING_REQS = 8
      and history = "[no_request True, no_request False]" and ?p0.0 = bench_memory
      and p = bench_memory and u = atomic_reset and a = 256
      and ?w1.0 = "[no_request False]" and ?g1.0 = "no_request True" and ?w2.0 = "[]"
      and ?g2.0 = "no_request True" and ?w3.0 = "[no_request False, no_request False]"
      and ?g3.0 = "no_request True" and ?w4.0 = "[]" and ?g4.0 = "no_request True"
      and opc = ATOMIC_ADD and d = 10 and c = 0 and w = 3 and l = 2 and rdy = True
      and ?x1.0 = "no_request True" and ?x2.0 = "no_request True"] r h
  show ?thesis by (simp add: word_index_256 m)
qed

text \<open>
  C9. \<open>atomic.add(a, x)\<close> followed by \<open>atomic.sub(a, x)\<close>, the second request presented at
  the edge after the response to the first, from an idle state as in C1 (in particular
  from every idle state reached from reset): the first returns the pre-image, the second
  returns the pre-image plus \<open>x\<close> (modulo \<open>2^32\<close>), and the memory is back to what it was.
\<close>

theorem atomic_add_then_sub_restores:
  "(current_state u = IDLE \<and> length (pending_reqs u) < MAX_PENDING_REQS
      \<and> \<not> mem_request_valid u \<and> \<not> check_contention MAX_PENDING_REQS (tracking_of u) a
    \<or> bench_run MAX_PENDING_REQS history (p0, atomic_reset) = (p, u)
      \<and> current_state u = IDLE \<and> 0 < MAX_PENDING_REQS)
   \<and> memory_waits w1 g1 w2 g2 w3 g3 w4 g4 \<and> memory_waits v1 h1 v2 h2 v3 h3 v4 h4
   \<longrightarrow>
     (case bench_run MAX_PENDING_REQS
             (request ATOMIC_ADD a x c w l rdy
              # transaction_cycles w1 g1 w2 g2 x1 w3 g3 w4 g4 x2) (p, u) of
        (p1, u1) \<Rightarrow>
          (case bench_run MAX_PENDING_REQS
                  (request ATOMIC_SUB a x c' w' l' rdy'
                   # transaction_cycles v1 h1 v2 h2 y1 v3 h3 v4 h4 y2) (p1, u1) of
             (p2, u2) \<Rightarrow>
               resp_valid u1 \<and> resp_data u1 = memory p (word_index a)
               \<and> resp_valid u2 \<and> resp_data u2 = memory p (word_index a) + x
               \<and> memory p2 = memory p))"
proof
  assume "(current_state u = IDLE \<and> length (pending_reqs u) < MAX_PENDING_REQS
      \<and> \<not> mem_request_valid u \<and> \<not> check_contention MAX_PENDING_REQS (tracking_of u) a
    \<or> bench_run MAX_PENDING_REQS history (p0, atomic_reset) = (p, u)
      \<and> current_state u = IDLE \<and> 0 < MAX_PENDING_REQS)
   \<and> memory_waits w1 g1 w2 g2 w3 g3 w4 g4 \<and> memory_waits v1 h1 v2 h2 v3 h3 v4 h4"
  with reached_idle [of MAX_PENDING_REQS history p0 p u a]
  have h: "current_state u = IDLE" "length (pending_reqs u) < MAX_PENDING_REQS"
    "\<not> mem_request_valid u" "\<not> check_contention MAX_PENDING_REQS (tracking_of u) a"
    "memory_waits w1 g1 w2 g2 w3 g3 w4 g4" "memory_waits v1 h1 v2 h2 v3 h3 v4 h4"
    by blast+
  obtain p1 u1 where s1:
    "bench_run MAX_PENDING_REQS
       (request ATOMIC_ADD a x c w l rdy # transaction_cycles w1 g1 w2 g2 x1 w3 g3 w4 g4 x2)
       (p, u) = (p1, u1)"
    "memory p1 = (memory p)(word_index a := f_op ATOMIC_ADD (memory p (word_index a)) x c)"
    "resp_valid u1" "resp_data u1 = memory p (word_index a)" "current_state u1 = IDLE"
    "pending_reqs u1 = pending_reqs u" "\<not> mem_request_valid u1"
    "\<forall>b. check_contention MAX_PENDING_REQS (tracking_of u1) b
          = check_contention MAX_PENDING_REQS (tracking_of u) b"
    using atomic_transaction [OF h(1-5)] by blast
  have h2: "length (pending_reqs u1) < MAX_PENDING_REQS"
    "\<not> check_contention MAX_PENDING_REQS (tracking_of u1) a"
    using s1 h by simp_all
  obtain p2 u2 where s2:
    "bench_run MAX_PENDING_REQS
       (request ATOMIC_SUB a x c' w' l' rdy' # transaction_cycles v1 h1 v2 h2 y1 v3 h3 v4 h4 y2)
       (p1, u1) = (p2, u2)"
    "memory p2 = (memory p1)(word_index a := f_op ATOMIC_SUB (memory p1 (word_index a)) x c')"
    "resp_valid u2" "resp_data u2 = memory p1 (word_index a)"
    using atomic_transaction [OF s1(5) h2(1) s1(7) h2(2) h(6)] by blast
  have "memory p2 = memory p" unfolding s2(2) s1(2) by (simp add: fun_eq_iff)
  moreover have "resp_data u2 = memory p (word_index a) + x" unfolding s2(4) s1(2) by simp
  ultimately show "case bench_run MAX_PENDING_REQS
             (request ATOMIC_ADD a x c w l rdy
              # transaction_cycles w1 g1 w2 g2 x1 w3 g3 w4 g4 x2) (p, u) of
        (p1, u1) \<Rightarrow>
          (case bench_run MAX_PENDING_REQS
                  (request ATOMIC_SUB a x c' w' l' rdy'
                   # transaction_cycles v1 h1 v2 h2 y1 v3 h3 v4 h4 y2) (p1, u1) of
             (p2, u2) \<Rightarrow>
               resp_valid u1 \<and> resp_data u1 = memory p (word_index a)
               \<and> resp_valid u2 \<and> resp_data u2 = memory p (word_index a) + x
               \<and> memory p2 = memory p)"
    using s1(1,3,4) s2(1,3) by simp
qed

theorem atomic_add_then_sub_restores_witness:
  "bench_run 8 [no_request True] (bench_memory, atomic_reset) = (bench_memory, atomic_reset)
   \<and> current_state atomic_reset = IDLE \<and> (0::nat) < 8
   \<and> memory_waits [] (no_request True) [] (no_request True) [] (no_request True) []
        (no_request True)
   \<and> memory_waits [] (no_request True) [no_request False] (no_request True) []
        (no_request True) [no_request False] (no_request True)
   \<and> (case bench_run 8
              (request ATOMIC_ADD 256 4294967295 0 1 0 True
               # transaction_cycles [] (no_request True) [] (no_request True) (no_request True)
                   [] (no_request True) [] (no_request True) (no_request True))
              (bench_memory, atomic_reset) of
         (p1, u1) \<Rightarrow>
           (case bench_run 8
                   (request ATOMIC_SUB 256 4294967295 0 1 1 True
                    # transaction_cycles [] (no_request True) [no_request False]
                        (no_request True) (no_request False) [] (no_request True)
                        [no_request False] (no_request True) (no_request True))
                   (p1, u1) of
              (p2, u2) \<Rightarrow>
                resp_valid u1 \<and> resp_data u1 = 64 \<and> resp_valid u2
                \<and> resp_data u2 = 64 + 4294967295 \<and> memory p2 = (\<lambda>i. ucast i)))"
proof -
  have r: "bench_run 8 [no_request True] (bench_memory, atomic_reset)
     = (bench_memory, atomic_reset)"
    by (simp add: bench_step_def memory_response_def atomic_step_def no_request_def
        atomic_reset_def bench_memory_def Let_def)
  have h: "current_state atomic_reset = IDLE" "(0::nat) < 8"
    "memory_waits [] (no_request True) [] (no_request True) [] (no_request True) []
        (no_request True)"
    "memory_waits [] (no_request True) [no_request False] (no_request True) []
        (no_request True) [no_request False] (no_request True)"
    by (simp_all add: atomic_reset_def memory_waits_def no_request_def)
  have m: "memory bench_memory = (\<lambda>i. ucast i)" by (simp add: bench_memory_def)
  from atomic_add_then_sub_restores [where MAX_PENDING_REQS = 8
      and history = "[no_request True]" and ?p0.0 = bench_memory
      and p = bench_memory and u = atomic_reset and a = 256
      and ?w1.0 = "[]" and ?g1.0 = "no_request True" and ?w2.0 = "[]"
      and ?g2.0 = "no_request True" and ?w3.0 = "[]"
      and ?g3.0 = "no_request True" and ?w4.0 = "[]" and ?g4.0 = "no_request True"
      and ?v1.0 = "[]" and ?h1.0 = "no_request True" and ?v2.0 = "[no_request False]"
      and ?h2.0 = "no_request True" and ?v3.0 = "[]"
      and ?h3.0 = "no_request True" and ?v4.0 = "[no_request False]"
      and ?h4.0 = "no_request True"
      and x = 4294967295 and c = 0 and w = 1 and l = 0 and rdy = True
      and c' = 0 and w' = 1 and l' = 1 and rdy' = True
      and ?x1.0 = "no_request True" and ?x2.0 = "no_request True"
      and ?y1.0 = "no_request False" and ?y2.0 = "no_request True"] r h
  show ?thesis by (simp add: word_index_256 m)
qed

section \<open>Register file (register\_file.sv)\<close>

definition NUM_REGISTERS :: nat where
  "NUM_REGISTERS = 32"

definition THREADS_PER_WARP :: nat where
  "THREADS_PER_WARP = 32"

definition NUM_WARPS :: nat where
  "NUM_WARPS = 32"

record register_entry_t =
  re_data :: "32 word"
  re_valid :: bool

text \<open>
  The variables of the module: the storage \<open>register_file[w][r][t]\<close>, the scoreboard output
  \<open>register_busy[w][r]\<close>, the three performance counters, and the two read outputs
  \<open>rs1_data[t]\<close> and \<open>rs2_data[t]\<close>. A read output is a variable that two combinational
  blocks assign; it holds what the block that ran last left in it. \<open>None\<close> is the unknown
  value \<open>X\<close>.
\<close>

record register_file_state =
  register_file :: "nat \<Rightarrow> nat \<Rightarrow> nat \<Rightarrow> register_entry_t"
  register_busy :: "nat \<Rightarrow> nat \<Rightarrow> bool"
  read_operations :: "32 word"
  write_operations :: "32 word"
  bank_conflicts :: "32 word"
  rs1_data :: "nat \<Rightarrow> 32 word option"
  rs2_data :: "nat \<Rightarrow> 32 word option"

record register_file_inputs =
  rs1_addr :: "5 word"
  rs1_warp_id :: "6 word"
  rs2_addr :: "5 word"
  rs2_warp_id :: "6 word"
  rd_addr :: "5 word"
  rd_warp_id :: "6 word"
  rd_data :: "nat \<Rightarrow> 32 word"
  rd_thread_mask :: "32 word"
  rd_write_en :: bool
  clear_busy_reg :: "5 word"
  clear_busy_warp :: "6 word"
  clear_busy_en :: bool




text \<open>
  The first combinational block ("Read operations"): both outputs take the stored data of
  the register named at their port, which is unknown for a warp row that is not there.
\<close>

definition stored_value :: "register_file_state \<Rightarrow> 6 word \<Rightarrow> 5 word \<Rightarrow> nat \<Rightarrow> 32 word option" where
  "stored_value s w a t =
     (if unat w < NUM_WARPS then Some (re_data (register_file s (unat w) (unat a) t)) else None)"

definition read_block :: "register_file_inputs \<Rightarrow> register_file_state \<Rightarrow> register_file_state" where
  "read_block i s =
     s\<lparr>rs1_data := (\<lambda>t. if t < THREADS_PER_WARP then stored_value s (rs1_warp_id i) (rs1_addr i) t
                          else rs1_data s t),
       rs2_data := (\<lambda>t. if t < THREADS_PER_WARP then stored_value s (rs2_warp_id i) (rs2_addr i) t
                          else rs2_data s t)\<rparr>"

text \<open>
  The last combinational block ("Special zero register handling"): an output whose port
  names register 0 is set to zero; the other output is left as it is.
\<close>

definition zero_block :: "register_file_inputs \<Rightarrow> register_file_state \<Rightarrow> register_file_state" where
  "zero_block i s =
     (let s1 = (if rs1_addr i = 0
                then s\<lparr>rs1_data := (\<lambda>t. if t < THREADS_PER_WARP then Some 0 else rs1_data s t)\<rparr>
                else s)
      in if rs2_addr i = 0
         then s1\<lparr>rs2_data := (\<lambda>t. if t < THREADS_PER_WARP then Some 0 else rs2_data s1 t)\<rparr>
         else s1)"

text \<open>
  Both blocks are \<open>always_comb\<close>: each runs at time zero and again whenever a signal it
  reads changes. The first reads the four port inputs and the storage, the last reads the
  two port addresses only. When both are due, the order in which they run is not laid
  down; \<open>zero_last\<close> tells that the zero block runs after the read block.
\<close>

definition both_blocks :: "bool \<Rightarrow> register_file_inputs \<Rightarrow> register_file_state \<Rightarrow> register_file_state" where
  "both_blocks zero_last i s =
     (if zero_last then zero_block i (read_block i s) else read_block i (zero_block i s))"

text \<open>The inputs change from \<open>old\<close> to \<open>new\<close> between two clock edges.\<close>

definition inputs_change :: "bool \<Rightarrow> register_file_inputs \<Rightarrow> register_file_inputs \<Rightarrow> register_file_state \<Rightarrow> register_file_state" where
  "inputs_change zero_last old new s =
     (if rs1_addr new \<noteq> rs1_addr old \<or> rs2_addr new \<noteq> rs2_addr old then both_blocks zero_last new s
      else if rs1_warp_id new \<noteq> rs1_warp_id old \<or> rs2_warp_id new \<noteq> rs2_warp_id old
      then read_block new s
      else s)"











subsection \<open>Properties of the register file\<close>











text \<open>The storage of register 0 of a warp that no cycle writes stays as it is.\<close>

lemma blocks_storage [simp]:
  "register_file (read_block i s) = register_file s"
  "register_file (zero_block i s) = register_file s"
  "register_file (both_blocks z i s) = register_file s"
  "register_file (inputs_change z old new s) = register_file s"
  by (simp_all add: read_block_def zero_block_def both_blocks_def inputs_change_def Let_def)







section \<open>Barrier controller (barrier\_controller.sv)\<close>

datatype barrier_state_e = BARRIER_IDLE | COLLECTING | RELEASING | TIMEOUT | ERROR

definition MAX_BARRIERS :: nat where
  "MAX_BARRIERS = 16"

definition WARPS_PER_BLOCK :: nat where
  "WARPS_PER_BLOCK = 32"

text \<open>
  \<open>barrier_entry_t\<close>. The two warp masks are \<open>logic [WARPS_PER_BLOCK-1:0]\<close>, 32 bits wide.
\<close>

record barrier_entry_t =
  barrier_id :: "16 word"
  block_id :: "10 word"
  arrived_warps :: "32 word"
  expected_warps :: "32 word"
  thread_masks :: "nat \<Rightarrow> 32 word"
  active :: bool
  cycle_counter :: "32 word"

text \<open>
  The registers of the module. The arrays are indexed by \<open>0 ..< MAX_BARRIERS\<close>. Registers
  the reset branch leaves unassigned (the identifiers and thread masks of the entries,
  \<open>barrier_complete\<close>, \<open>arrive_ready\<close>) start as zero or low: a test on an unknown
  \<open>arrive_ready\<close> does not succeed.
\<close>

record barrier_controller =
  barrier_table :: "nat \<Rightarrow> barrier_entry_t"
  barrier_states :: "nat \<Rightarrow> barrier_state_e"
  barrier_free :: "nat \<Rightarrow> bool"
  barrier_complete :: "nat \<Rightarrow> bool"
  arrive_ready :: bool
  release_barrier_id :: "16 word"
  release_block_id :: "10 word"
  release_warp_mask :: "32 word"
  release_valid :: bool
  release_barrier_id_next :: "16 word"
  release_block_id_next :: "10 word"
  release_warp_mask_next :: "32 word"
  release_valid_next :: bool
  barrier_count :: "32 word"
  stalled_cycle_count :: "32 word"

record barrier_inputs =
  arrive_barrier_id :: "16 word"
  arrive_thread_mask :: "32 word"
  arrive_block_id :: "10 word"
  arrive_warp_id :: "6 word"
  arrive_valid :: bool
  release_ready :: bool


definition find_free_barrier :: "barrier_controller \<Rightarrow> nat option" where
  "find_free_barrier s = first_index (\<lambda>i. barrier_free s i) 0 MAX_BARRIERS"

definition find_barrier :: "barrier_controller \<Rightarrow> 16 word \<Rightarrow> 10 word \<Rightarrow> nat option" where
  "find_barrier s bid blk =
     first_index
       (\<lambda>i. \<not> barrier_free s i \<and> active (barrier_table s i)
             \<and> barrier_id (barrier_table s i) = bid \<and> block_id (barrier_table s i) = blk)
       0 MAX_BARRIERS"

definition is_barrier_complete :: "barrier_controller \<Rightarrow> nat \<Rightarrow> bool" where
  "is_barrier_complete s index \<longleftrightarrow>
     arrived_warps (barrier_table s index) = expected_warps (barrier_table s index)
     \<and> expected_warps (barrier_table s index) \<noteq> 0"

text \<open>\<open>for (int i = lo; i < lo + n; i++) body\<close>\<close>

fun for_loop :: "(nat \<Rightarrow> 'a \<Rightarrow> 'a) \<Rightarrow> nat \<Rightarrow> nat \<Rightarrow> 'a \<Rightarrow> 'a" where
  "for_loop body lo 0 x = x"
| "for_loop body lo (Suc n) x = for_loop body (Suc lo) n (body lo x)"

text \<open>
  All assignments of the clocked block are non-blocking: every right-hand side and every
  test reads the registers as they were before the edge (\<open>s\<close>), and the assignments
  accumulate, in program order, in the registers after the edge (\<open>n\<close>).
\<close>

definition update_entry :: "nat \<Rightarrow> (barrier_entry_t \<Rightarrow> barrier_entry_t) \<Rightarrow> barrier_controller \<Rightarrow> barrier_controller" where
  "update_entry i f n = n\<lparr>barrier_table := (barrier_table n)(i := f (barrier_table n i))\<rparr>"

definition prepare_release :: "barrier_controller \<Rightarrow> nat \<Rightarrow> barrier_controller \<Rightarrow> barrier_controller" where
  "prepare_release s i n =
     n\<lparr>barrier_states := (barrier_states n)(i := RELEASING),
       barrier_complete := (barrier_complete n)(i := True),
       release_barrier_id_next := barrier_id (barrier_table s i),
       release_block_id_next := block_id (barrier_table s i),
       release_warp_mask_next := arrived_warps (barrier_table s i),
       release_valid_next := True\<rparr>"

text \<open>The body of the loop over the entries ("Handle barrier state machine for each entry").\<close>

definition entry_fsm :: "barrier_controller \<Rightarrow> barrier_inputs \<Rightarrow> nat \<Rightarrow> barrier_controller \<Rightarrow> barrier_controller" where
  "entry_fsm s inp i n =
     (if \<not> barrier_free s i \<and> active (barrier_table s i) then
        (case barrier_states s i of
           BARRIER_IDLE \<Rightarrow> n
         | COLLECTING \<Rightarrow>
             (let n1 = (update_entry i
                          (\<lambda>e. e\<lparr>cycle_counter := cycle_counter (barrier_table s i) + 1\<rparr>) n)
                         \<lparr>stalled_cycle_count := stalled_cycle_count s + 1\<rparr>
              in if is_barrier_complete s i then prepare_release s i n1 else n1)
         | RELEASING \<Rightarrow>
             (if release_ready inp \<and> release_valid s
                 \<and> release_barrier_id s = barrier_id (barrier_table s i)
                 \<and> release_block_id s = block_id (barrier_table s i)
              then (update_entry i (\<lambda>e. e\<lparr>active := False\<rparr>) n)
                     \<lparr>barrier_free := (barrier_free n)(i := True),
                      barrier_states := (barrier_states n)(i := BARRIER_IDLE),
                      barrier_count := barrier_count s + 1,
                      barrier_complete := (barrier_complete n)(i := False)\<rparr>
              else n)
         | TIMEOUT \<Rightarrow> n\<lparr>barrier_states := (barrier_states n)(i := RELEASING)\<rparr>
         | ERROR \<Rightarrow>
             (update_entry i (\<lambda>e. e\<lparr>active := False\<rparr>) n)
               \<lparr>barrier_states := (barrier_states n)(i := BARRIER_IDLE),
                barrier_free := (barrier_free n)(i := True)\<rparr>)
      else n)"

text \<open>
  \<open>arrived_warps[warp_position] <= 1'b1\<close> and \<open>thread_masks[warp_position] <= ...\<close>: the
  position is the six-bit warp identifier; a position beyond the 32 bits, or rows, selects
  nothing and the assignment has no effect.
\<close>

definition record_arrival :: "barrier_inputs \<Rightarrow> barrier_entry_t \<Rightarrow> barrier_entry_t" where
  "record_arrival inp e =
     (let warp_position = unat (arrive_warp_id inp) in
      if warp_position < WARPS_PER_BLOCK then
        e\<lparr>arrived_warps := set_bit warp_position (arrived_warps e),
          thread_masks := (thread_masks e)(warp_position := arrive_thread_mask inp)\<rparr>
      else e)"

text \<open>"Process new barrier arrivals".\<close>

definition process_arrival :: "barrier_controller \<Rightarrow> barrier_inputs \<Rightarrow> barrier_controller \<Rightarrow> barrier_controller" where
  "process_arrival s inp n =
     (if arrive_valid inp \<and> arrive_ready s then
        (case find_barrier s (arrive_barrier_id inp) (arrive_block_id inp) of
           Some barrier_index \<Rightarrow>
             (let n1 = update_entry barrier_index (record_arrival inp) n
              in if is_barrier_complete s barrier_index then prepare_release s barrier_index n1
                 else n1)
         | None \<Rightarrow>
             (case find_free_barrier s of
                Some free_index \<Rightarrow>
                  (update_entry free_index
                     (\<lambda>e. record_arrival inp
                             (e\<lparr>barrier_id := arrive_barrier_id inp,
                                block_id := arrive_block_id inp,
                                arrived_warps := 0,
                                expected_warps := - 1,
                                active := True,
                                cycle_counter := 0\<rparr>)) n)
                    \<lparr>barrier_free := (barrier_free n)(free_index := False),
                     barrier_states := (barrier_states n)(free_index := COLLECTING)\<rparr>
              | None \<Rightarrow> n\<lparr>arrive_ready := False\<rparr>))
      else n)"

text \<open>One rising clock edge with \<open>rst_n\<close> high.\<close>

definition barrier_step :: "barrier_inputs \<Rightarrow> barrier_controller \<Rightarrow> barrier_controller" where
  "barrier_step inp s =
     (let n0 = s\<lparr>arrive_ready := True,
                 release_barrier_id := release_barrier_id_next s,
                 release_block_id := release_block_id_next s,
                 release_warp_mask := release_warp_mask_next s,
                 release_valid := release_valid_next s,
                 release_valid_next := False\<rparr>;
          n1 = for_loop (entry_fsm s inp) 0 MAX_BARRIERS n0
      in process_arrival s inp n1)"

fun barrier_run :: "barrier_inputs list \<Rightarrow> barrier_controller \<Rightarrow> barrier_controller" where
  "barrier_run [] s = s"
| "barrier_run (inp # inps) s = barrier_run inps (barrier_step inp s)"











subsection \<open>Properties of the barrier controller\<close>


























lemma barrier_run_append: "barrier_run (xs @ ys) s = barrier_run ys (barrier_run xs s)"
  by (induction xs arbitrary: s) simp_all



























section \<open>Memory model (memory\_model.h, memory\_model.cpp)\<close>

text \<open>
  How a call can end without returning: the alignment assertion of \<open>process_request\<close>
  (the exception of \<open>DPIWrapper::validate_address\<close> falls under the same name), another
  failed assertion, the \<open>std::out_of_range\<close> of \<open>validate_warp_id\<close>, and operations C++
  leaves undefined (a vector index out of range, a division by zero, the logarithm of
  zero converted to an integer, a right shift by 32 or more, the read of a variable that
  was never written).
\<close>

datatype error = AlignmentFault | AssertionFailed | OutOfRange | UndefinedBehaviour

definition ebind :: "error + 'a \<Rightarrow> ('a \<Rightarrow> error + 'b) \<Rightarrow> error + 'b" where
  "ebind x f = (case x of Inl e \<Rightarrow> Inl e | Inr v \<Rightarrow> f v)"

record CacheConfig =
  total_size :: "32 word"
  line_size :: "32 word"
  associativity :: "32 word"
  num_banks :: "32 word"
  memory_latency :: "32 word"

record CacheStats =
  reads :: "64 word"
  writes :: "64 word"
  hits :: "64 word"
  misses :: "64 word"
  evictions :: "64 word"
  stat_bank_conflicts :: "64 word"

record CacheLine =
  tag :: "32 word"
  line_data :: "32 word list"
  valid :: bool
  dirty :: bool
  last_access :: "64 word"

record CacheSet =
  ways :: "CacheLine list"

record MemoryAccess =
  ma_address :: "32 word"
  ma_data :: "32 word"
  ma_is_write :: bool
  ma_cycle :: "64 word"

text \<open>
  The members of the class lose the trailing underscore of the source and gain the
  prefix \<open>mm_\<close>. \<open>main_memory_\<close> is an \<open>unordered_map\<close> read with \<open>operator[]\<close>, which yields zero for a
  key not yet present: a total function, zero at the start.
\<close>

record MemoryModel =
  mm_config :: CacheConfig
  mm_sets :: "CacheSet list"
  mm_main_memory :: "32 word \<Rightarrow> 32 word"
  mm_stats :: CacheStats
  mm_current_cycle :: "64 word"
  mm_access_history :: "MemoryAccess list"

definition MAX_HISTORY_SIZE :: nat where
  "MAX_HISTORY_SIZE = 1000"

definition empty_stats :: CacheStats where
  "empty_stats = \<lparr>reads = 0, writes = 0, hits = 0, misses = 0, evictions = 0,
                   stat_bank_conflicts = 0\<rparr>"

text \<open>\<open>CacheLine(line_size_bytes)\<close> and \<open>CacheSet(associativity, line_size_bytes)\<close>.\<close>

definition new_CacheLine :: "32 word \<Rightarrow> CacheLine" where
  "new_CacheLine line_size_bytes =
     \<lparr>tag = 0, line_data = replicate (unat (line_size_bytes div 4)) 0, valid = False,
      dirty = False, last_access = 0\<rparr>"

definition new_CacheSet :: "32 word \<Rightarrow> 32 word \<Rightarrow> CacheSet" where
  "new_CacheSet assoc line_size_bytes =
     \<lparr>ways = replicate (unat assoc) (new_CacheLine line_size_bytes)\<rparr>"

text \<open>
  The constructor. The number of sets is \<open>cache_size / (line_size * 8)\<close> in 32-bit
  arithmetic; the division is undefined when the product is zero.
\<close>

definition new_MemoryModel :: "32 word \<Rightarrow> 32 word \<Rightarrow> 32 word \<Rightarrow> error + MemoryModel" where
  "new_MemoryModel cache_size lsize latency =
     (if lsize * 8 = 0 then Inl UndefinedBehaviour
      else Inr \<lparr>mm_config = \<lparr>total_size = cache_size, line_size = lsize, associativity = 8,
                           num_banks = 8, memory_latency = latency\<rparr>,
                mm_sets = replicate (unat (cache_size div (lsize * 8))) (new_CacheSet 8 lsize),
                mm_main_memory = (\<lambda>a. 0),
                mm_stats = empty_stats,
                mm_current_cycle = 0,
                mm_access_history = []\<rparr>)"

definition initialize :: "MemoryModel \<Rightarrow> MemoryModel" where
  "initialize m =
     m\<lparr>mm_sets :=
         map (\<lambda>set. set\<lparr>ways :=
                map (\<lambda>way. way\<lparr>valid := False, dirty := False, tag := 0,
                              line_data := map (\<lambda>w. 0) (line_data way), last_access := 0\<rparr>)
                  (ways set)\<rparr>)
           (mm_sets m),
       mm_main_memory := (\<lambda>a. 0),
       mm_stats := empty_stats,
       mm_current_cycle := 0,
       mm_access_history := []\<rparr>"

text \<open>\<open>static_cast<uint32_t>(std::log2(n))\<close> for \<open>n \<ge> 1\<close>: the floor of the logarithm.\<close>

fun ilog2 :: "nat \<Rightarrow> nat" where
  "ilog2 n = (if n < 2 then 0 else Suc (ilog2 (n div 2)))"

declare ilog2.simps [simp del]

text \<open>
  The two bit counts that \<open>get_set_index\<close> and \<open>get_tag\<close> both compute:
  \<open>(set_bits, offset_bits)\<close>.
\<close>

definition index_bits :: "CacheConfig \<Rightarrow> error + (nat \<times> nat)" where
  "index_bits c =
     (if line_size c * associativity c = 0 then Inl UndefinedBehaviour
      else
        (let num_sets = total_size c div (line_size c * associativity c) in
         if num_sets = 0 then Inl UndefinedBehaviour
         else Inr (ilog2 (unat num_sets), ilog2 (unat (line_size c)))))"

text \<open>\<open>(1 << set_bits) - 1\<close> is computed in \<open>int\<close>: undefined from 31 bits on.\<close>

definition get_set_index :: "CacheConfig \<Rightarrow> 32 word \<Rightarrow> error + 32 word" where
  "get_set_index c address =
     ebind (index_bits c) (\<lambda>(set_bits, offset_bits).
       if 31 \<le> set_bits then Inl UndefinedBehaviour
       else Inr (drop_bit offset_bits address AND (push_bit set_bits 1 - 1)))"

definition get_tag :: "CacheConfig \<Rightarrow> 32 word \<Rightarrow> error + 32 word" where
  "get_tag c address =
     ebind (index_bits c) (\<lambda>(set_bits, offset_bits).
       if 32 \<le> offset_bits + set_bits then Inl UndefinedBehaviour
       else Inr (drop_bit (offset_bits + set_bits) address))"

definition get_offset :: "CacheConfig \<Rightarrow> 32 word \<Rightarrow> 32 word" where
  "get_offset c address = address AND (line_size c - 1)"

definition get_bank_index :: "CacheConfig \<Rightarrow> 32 word \<Rightarrow> error + 32 word" where
  "get_bank_index c address =
     (if num_banks c = 0 then Inl UndefinedBehaviour
      else Inr (drop_bit 2 address mod num_banks c))"

definition translate_address :: "32 word \<Rightarrow> 32 word" where
  "translate_address address = address"

definition check_alignment :: "32 word \<Rightarrow> 32 word \<Rightarrow> bool" where
  "check_alignment address sz \<longleftrightarrow> address mod sz = 0"

definition calculate_access_latency :: "CacheConfig \<Rightarrow> 32 word \<Rightarrow> bool \<Rightarrow> 32 word" where
  "calculate_access_latency c address is_hit =
     (if is_hit then 1 else memory_latency c + line_size c div 16)"

definition check_bank_conflicts :: "CacheConfig \<Rightarrow> 32 word \<Rightarrow> error + 32 word" where
  "check_bank_conflicts c address = ebind (get_bank_index c address) (\<lambda>bank. Inr 0)"

text \<open>Indexing a vector: undefined out of range.\<close>

definition at_index :: "'a list \<Rightarrow> nat \<Rightarrow> error + 'a" where
  "at_index xs i = (if i < length xs then Inr (xs ! i) else Inl UndefinedBehaviour)"

definition set_index_at :: "'a list \<Rightarrow> nat \<Rightarrow> 'a \<Rightarrow> error + 'a list" where
  "set_index_at xs i v = (if i < length xs then Inr (xs[i := v]) else Inl UndefinedBehaviour)"

text \<open>
  The hit loop of \<open>process_request\<close>: ways \<open>i, i + 1, ...\<close>, \<open>n\<close> of them, stopping at the
  first valid way with the tag.
\<close>

fun find_hit :: "CacheLine list \<Rightarrow> 32 word \<Rightarrow> nat \<Rightarrow> nat \<Rightarrow> error + nat option" where
  "find_hit ws t i 0 = Inr None"
| "find_hit ws t i (Suc n) =
     (if length ws \<le> i then Inl UndefinedBehaviour
      else if valid (ws ! i) \<and> tag (ws ! i) = t then Inr (Some i)
      else find_hit ws t (Suc i) n)"

text \<open>\<open>select_victim\<close>: the loop for an invalid way, then the scan for the oldest access.\<close>

fun find_invalid :: "CacheLine list \<Rightarrow> nat \<Rightarrow> nat \<Rightarrow> error + nat option" where
  "find_invalid ws i 0 = Inr None"
| "find_invalid ws i (Suc n) =
     (if length ws \<le> i then Inl UndefinedBehaviour
      else if \<not> valid (ws ! i) then Inr (Some i)
      else find_invalid ws (Suc i) n)"

fun lru_scan :: "CacheLine list \<Rightarrow> nat \<Rightarrow> nat \<Rightarrow> nat \<Rightarrow> 64 word \<Rightarrow> error + nat" where
  "lru_scan ws i 0 lru_way lru_time = Inr lru_way"
| "lru_scan ws i (Suc n) lru_way lru_time =
     (if length ws \<le> i then Inl UndefinedBehaviour
      else if last_access (ws ! i) < lru_time
        then lru_scan ws (Suc i) n i (last_access (ws ! i))
        else lru_scan ws (Suc i) n lru_way lru_time)"

definition select_victim :: "CacheConfig \<Rightarrow> CacheSet \<Rightarrow> error + nat" where
  "select_victim c cset =
     ebind (find_invalid (ways cset) 0 (unat (associativity c))) (\<lambda>r.
       case r of
         Some i \<Rightarrow> Inr i
       | None \<Rightarrow>
           ebind (at_index (ways cset) 0) (\<lambda>w0.
             lru_scan (ways cset) 1 (unat (associativity c) - 1) 0 (last_access w0)))"

text \<open>
  The address of a line written back, \<open>(tag << (32 - get_tag(0xFFFFFFFF))) |
  (set_index << get_offset(0xFFFFFFFF))\<close>. C++ leaves a left shift by 32 or more
  undefined; the count is taken modulo 32 here (its low five bits), as the shift
  instruction of the x86 does. No property below depends on this address.
\<close>

definition shift_left :: "32 word \<Rightarrow> 32 word \<Rightarrow> 32 word" where
  "shift_left x n = push_bit (unat (n AND 31)) x"

definition line_base_address :: "CacheConfig \<Rightarrow> 32 word \<Rightarrow> 32 word \<Rightarrow> error + 32 word" where
  "line_base_address c t set_index =
     ebind (get_tag c 4294967295) (\<lambda>all_tag.
       Inr (shift_left t (32 - all_tag) OR shift_left set_index (get_offset c 4294967295)))"

text \<open>\<open>for (i = 0; i < data.size(); ++i) mm_main_memory[base + i*4] = data[i];\<close>\<close>

fun write_line :: "32 word \<Rightarrow> 32 word list \<Rightarrow> nat \<Rightarrow> (32 word \<Rightarrow> 32 word) \<Rightarrow> (32 word \<Rightarrow> 32 word)" where
  "write_line base [] i mem = mem"
| "write_line base (d # ds) i mem = write_line base ds (Suc i) (mem(base + of_nat i * 4 := d))"

text \<open>\<open>for (i = 0; i < line_size/4; ++i) victim.data[i] = mm_main_memory[base + i*4];\<close>\<close>

fun load_line :: "(32 word \<Rightarrow> 32 word) \<Rightarrow> 32 word \<Rightarrow> nat \<Rightarrow> nat \<Rightarrow> 32 word list \<Rightarrow> error + 32 word list" where
  "load_line mem base i 0 ds = Inr ds"
| "load_line mem base i (Suc n) ds =
     (if length ds \<le> i then Inl UndefinedBehaviour
      else load_line mem base (Suc i) n (ds[i := mem (base + of_nat i * 4)]))"

text \<open>
  \<open>handle_coherence\<close>: every valid way, of every set, that carries the tag of the address
  is marked dirty.
\<close>

definition handle_coherence :: "32 word \<Rightarrow> MemoryModel \<Rightarrow> error + MemoryModel" where
  "handle_coherence address m =
     ebind (get_set_index (mm_config m) address) (\<lambda>set_index.
     ebind (get_tag (mm_config m) address) (\<lambda>t.
       Inr (m\<lparr>mm_sets :=
              map (\<lambda>set. set\<lparr>ways :=
                     map (\<lambda>way. if valid way \<and> tag way = t then way\<lparr>dirty := True\<rparr> else way)
                       (ways set)\<rparr>)
                (mm_sets m)\<rparr>)))"

definition put_way :: "nat \<Rightarrow> nat \<Rightarrow> CacheLine \<Rightarrow> MemoryModel \<Rightarrow> MemoryModel" where
  "put_way set_index way l m =
     m\<lparr>mm_sets := (mm_sets m)[set_index := (mm_sets m ! set_index)\<lparr>ways :=
                    (ways (mm_sets m ! set_index))[way := l]\<rparr>]\<rparr>"

text \<open>The bookkeeping at the head of \<open>process_request\<close>.\<close>

definition record_access :: "MemoryAccess \<Rightarrow> MemoryModel \<Rightarrow> MemoryModel" where
  "record_access a m =
     (if length (mm_access_history m) < MAX_HISTORY_SIZE
      then m\<lparr>mm_access_history := mm_access_history m @ [a]\<rparr> else m)"

definition count_access :: "bool \<Rightarrow> MemoryModel \<Rightarrow> MemoryModel" where
  "count_access is_write m =
     (if is_write then m\<lparr>mm_stats := (mm_stats m)\<lparr>writes := writes (mm_stats m) + 1\<rparr>\<rparr>
      else m\<lparr>mm_stats := (mm_stats m)\<lparr>reads := reads (mm_stats m) + 1\<rparr>\<rparr>)"

definition count_hit :: "bool \<Rightarrow> MemoryModel \<Rightarrow> MemoryModel" where
  "count_hit hit m =
     (if hit then m\<lparr>mm_stats := (mm_stats m)\<lparr>hits := hits (mm_stats m) + 1\<rparr>\<rparr>
      else m\<lparr>mm_stats := (mm_stats m)\<lparr>misses := misses (mm_stats m) + 1\<rparr>\<rparr>)"

text \<open>
  The access to word \<open>offset/4\<close> of a line: a write stores the datum, a read fetches it
  (into a local variable that is not returned).
\<close>

definition access_word :: "32 word list \<Rightarrow> 32 word \<Rightarrow> 32 word \<Rightarrow> bool \<Rightarrow> error + 32 word list" where
  "access_word ds offset d is_write =
     (if is_write then set_index_at ds (unat (offset div 4)) d
      else ebind (at_index ds (unat (offset div 4))) (\<lambda>r. Inr ds))"

text \<open>The branch "Cache hit".\<close>

definition hit_path :: "MemoryModel \<Rightarrow> nat \<Rightarrow> nat \<Rightarrow> 32 word \<Rightarrow> 32 word \<Rightarrow> bool \<Rightarrow> error + MemoryModel" where
  "hit_path m set_index hit_way offset d is_write =
     ebind (at_index (mm_sets m) set_index) (\<lambda>cset.
     ebind (at_index (ways cset) hit_way) (\<lambda>line.
     ebind (access_word (line_data line) offset d is_write) (\<lambda>ds.
       Inr (put_way set_index hit_way
              (line\<lparr>last_access := mm_current_cycle m, line_data := ds,
                    dirty := (if is_write then True else dirty line)\<rparr>) m))))"

text \<open>"Write back dirty line": the words of the line go to memory.\<close>

definition write_back :: "MemoryModel \<Rightarrow> CacheLine \<Rightarrow> 32 word \<Rightarrow> error + MemoryModel" where
  "write_back m l set_index =
     ebind (line_base_address (mm_config m) (tag l) set_index) (\<lambda>base.
       Inr (m\<lparr>mm_main_memory := write_line base (line_data l) 0 (mm_main_memory m)\<rparr>))"

text \<open>The branch "Cache miss".\<close>

definition miss_path :: "MemoryModel \<Rightarrow> 32 word \<Rightarrow> 32 word \<Rightarrow> 32 word \<Rightarrow> 32 word \<Rightarrow> 32 word \<Rightarrow> bool \<Rightarrow> error + MemoryModel" where
  "miss_path m physical_address set_index t offset d is_write =
     ebind (at_index (mm_sets m) (unat set_index)) (\<lambda>cset.
     ebind (select_victim (mm_config m) cset) (\<lambda>victim_way.
     ebind (at_index (ways cset) victim_way) (\<lambda>victim.
     ebind (if valid victim \<and> dirty victim then
              ebind (write_back m victim set_index) (\<lambda>m1.
                Inr (m1\<lparr>mm_stats := (mm_stats m1)\<lparr>evictions := evictions (mm_stats m1) + 1\<rparr>\<rparr>))
            else Inr m) (\<lambda>m2.
     ebind (load_line (mm_main_memory m2)
              (physical_address AND NOT (line_size (mm_config m) - 1)) 0
              (unat (line_size (mm_config m) div 4)) (line_data victim)) (\<lambda>ds.
     ebind (access_word ds offset d is_write) (\<lambda>ds'.
       Inr (put_way (unat set_index) victim_way
              (victim\<lparr>line_data := ds', tag := t, valid := True, dirty := is_write,
                      last_access := mm_current_cycle m\<rparr>) m2)))))))"

text \<open>\<open>process_request\<close> returns the cycle count after the access.\<close>

definition process_request :: "MemoryModel \<Rightarrow> 32 word \<Rightarrow> 32 word \<Rightarrow> bool \<Rightarrow> error + (MemoryModel \<times> 64 word)" where
  "process_request m0 address d is_write =
     (let m1 = record_access \<lparr>ma_address = address, ma_data = d, ma_is_write = is_write,
                               ma_cycle = mm_current_cycle m0\<rparr> m0;
          m2 = count_access is_write m1
      in if \<not> check_alignment address 4 then Inl AlignmentFault
         else
           (let physical_address = translate_address address in
            ebind (get_set_index (mm_config m2) physical_address) (\<lambda>set_index.
            ebind (get_tag (mm_config m2) physical_address) (\<lambda>t.
            ebind (at_index (mm_sets m2) (unat set_index)) (\<lambda>cset.
            ebind (find_hit (ways cset) t 0 (unat (associativity (mm_config m2)))) (\<lambda>hit_way.
            ebind (check_bank_conflicts (mm_config m2) physical_address) (\<lambda>conflicts.
            ebind (case hit_way of
                     Some w \<Rightarrow>
                       hit_path (count_hit True m2) (unat set_index) w
                         (get_offset (mm_config m2) physical_address) d is_write
                   | None \<Rightarrow>
                       miss_path (count_hit False m2) physical_address set_index t
                         (get_offset (mm_config m2) physical_address) d is_write) (\<lambda>m4.
            ebind (handle_coherence physical_address m4) (\<lambda>m5.
              (let latency = calculate_access_latency (mm_config m2) physical_address
                               (hit_way \<noteq> None) + conflicts;
                   cycle = mm_current_cycle m5 + ucast latency
               in Inr (m5\<lparr>mm_current_cycle := cycle\<rparr>, cycle)))))))))))"

text \<open>\<open>lookup_cache\<close>: the word, when a valid way of the set carries the tag.\<close>

definition lookup_cache :: "MemoryModel \<Rightarrow> 32 word \<Rightarrow> error + 32 word option" where
  "lookup_cache m address =
     ebind (get_set_index (mm_config m) address) (\<lambda>set_index.
     ebind (get_tag (mm_config m) address) (\<lambda>t.
     ebind (at_index (mm_sets m) (unat set_index)) (\<lambda>cset.
       case find (\<lambda>way. valid way \<and> tag way = t) (ways cset) of
         None \<Rightarrow> Inr None
       | Some way \<Rightarrow>
           ebind (at_index (line_data way) (unat (get_offset (mm_config m) address div 4)))
             (\<lambda>d. Inr (Some d)))))"

definition update_cache :: "MemoryModel \<Rightarrow> 32 word \<Rightarrow> 32 word \<Rightarrow> error + MemoryModel" where
  "update_cache m address d =
     ebind (get_set_index (mm_config m) address) (\<lambda>set_index.
     ebind (get_tag (mm_config m) address) (\<lambda>t.
     ebind (at_index (mm_sets m) (unat set_index)) (\<lambda>cset.
       case first_index (\<lambda>i. valid (ways cset ! i) \<and> tag (ways cset ! i) = t) 0
              (length (ways cset)) of
         Some i \<Rightarrow>
           ebind (set_index_at (line_data (ways cset ! i))
                    (unat (get_offset (mm_config m) address div 4)) d) (\<lambda>ds.
             Inr (put_way (unat set_index) i
                    ((ways cset ! i)\<lparr>line_data := ds, dirty := True,
                                     last_access := mm_current_cycle m\<rparr>) m))
       | None \<Rightarrow> ebind (process_request m address d True) (\<lambda>(m', cycle). Inr m'))))"

text \<open>
  \<open>read_instruction\<close>. After a miss the word is looked up again; were that second lookup
  to miss, the function would return an uninitialised variable.
\<close>

definition read_instruction :: "MemoryModel \<Rightarrow> 32 word \<Rightarrow> error + (MemoryModel \<times> 32 word)" where
  "read_instruction m address =
     ebind (lookup_cache m address) (\<lambda>r.
       case r of
         Some d \<Rightarrow> Inr (m, d)
       | None \<Rightarrow>
           ebind (process_request m address 0 False) (\<lambda>(m', cycle).
           ebind (lookup_cache m' address) (\<lambda>r'.
             case r' of
               Some d \<Rightarrow> Inr (m', d)
             | None \<Rightarrow> Inl UndefinedBehaviour)))"

text \<open>
  \<open>invalidate_cache_line\<close>: every valid way of the set that carries the tag is written
  back when dirty, then made invalid and clean. The loop does not stop at the first.
\<close>

fun invalidate_ways :: "MemoryModel \<Rightarrow> 32 word \<Rightarrow> 32 word \<Rightarrow> CacheLine list \<Rightarrow> error + (CacheLine list \<times> MemoryModel)" where
  "invalidate_ways m set_index t [] = Inr ([], m)"
| "invalidate_ways m set_index t (way # rest) =
     (if valid way \<and> tag way = t then
        ebind (if dirty way then write_back m way set_index else Inr m) (\<lambda>m1.
        ebind (invalidate_ways m1 set_index t rest) (\<lambda>(rest', m2).
          Inr (way\<lparr>valid := False, dirty := False\<rparr> # rest', m2)))
      else
        ebind (invalidate_ways m set_index t rest) (\<lambda>(rest', m2). Inr (way # rest', m2)))"

definition invalidate_cache_line :: "MemoryModel \<Rightarrow> 32 word \<Rightarrow> error + MemoryModel" where
  "invalidate_cache_line m address =
     ebind (get_set_index (mm_config m) address) (\<lambda>set_index.
     ebind (get_tag (mm_config m) address) (\<lambda>t.
     ebind (at_index (mm_sets m) (unat set_index)) (\<lambda>cset.
     ebind (invalidate_ways m set_index t (ways cset)) (\<lambda>(ws, m1).
       Inr (m1\<lparr>mm_sets := (mm_sets m1)[unat set_index := cset\<lparr>ways := ws\<rparr>]\<rparr>)))))"

definition evict_cache_line :: "MemoryModel \<Rightarrow> 32 word \<Rightarrow> 32 word \<Rightarrow> error + MemoryModel" where
  "evict_cache_line m set_index way =
     (if \<not> unat set_index < length (mm_sets m) then Inl AssertionFailed
      else if \<not> way < associativity (mm_config m) then Inl AssertionFailed
      else
        ebind (at_index (ways (mm_sets m ! unat set_index)) (unat way)) (\<lambda>line.
        ebind (if valid line \<and> dirty line then write_back m line set_index else Inr m) (\<lambda>m1.
          Inr ((put_way (unat set_index) (unat way) (line\<lparr>valid := False, dirty := False\<rparr>) m1)
                 \<lparr>mm_stats := (mm_stats m1)\<lparr>evictions := evictions (mm_stats m1) + 1\<rparr>\<rparr>))))"

definition get_cache_stats :: "MemoryModel \<Rightarrow> 64 word \<times> 64 word" where
  "get_cache_stats m = (hits (mm_stats m), misses (mm_stats m))"

text \<open>The operations of the class, and sequences of them; a sequence stops where a call fails.\<close>

datatype mem_op =
  Initialize
  | ProcessRequest "32 word" "32 word" bool
  | ReadInstruction "32 word"
  | LookupCache "32 word"
  | UpdateCache "32 word" "32 word"
  | EvictCacheLine "32 word" "32 word"
  | InvalidateCacheLine "32 word"

fun apply_mem_op :: "MemoryModel \<Rightarrow> mem_op \<Rightarrow> error + MemoryModel" where
  "apply_mem_op m Initialize = Inr (initialize m)"
| "apply_mem_op m (ProcessRequest address d is_write) =
     ebind (process_request m address d is_write) (\<lambda>(m', cycle). Inr m')"
| "apply_mem_op m (ReadInstruction address) =
     ebind (read_instruction m address) (\<lambda>(m', d). Inr m')"
| "apply_mem_op m (LookupCache address) = ebind (lookup_cache m address) (\<lambda>r. Inr m)"
| "apply_mem_op m (UpdateCache address d) = update_cache m address d"
| "apply_mem_op m (EvictCacheLine set_index way) = evict_cache_line m set_index way"
| "apply_mem_op m (InvalidateCacheLine address) = invalidate_cache_line m address"

fun run_mem_ops :: "MemoryModel \<Rightarrow> mem_op list \<Rightarrow> error + MemoryModel" where
  "run_mem_ops m [] = Inr m"
| "run_mem_ops m (x # xs) = ebind (apply_mem_op m x) (\<lambda>m'. run_mem_ops m' xs)"

text \<open>The two properties that \<open>verify_state\<close> asserts of the lines and of the counters.\<close>

definition lines_consistent :: "MemoryModel \<Rightarrow> bool" where
  "lines_consistent m \<longleftrightarrow>
     list_all (\<lambda>cset. list_all (\<lambda>way. valid way \<or> \<not> dirty way) (ways cset)) (mm_sets m)"

definition stats_consistent :: "MemoryModel \<Rightarrow> bool" where
  "stats_consistent m \<longleftrightarrow>
     hits (mm_stats m) + misses (mm_stats m) = reads (mm_stats m) + writes (mm_stats m)"

text \<open>An eight-way set with every way valid, and the configuration the constructor gives.\<close>

definition full_set :: CacheSet where
  "full_set =
     \<lparr>ways = map (\<lambda>t. \<lparr>tag = 0, line_data = [0, 0, 0, 0], valid = True, dirty = False,
                          last_access = t\<rparr>) [5, 3, 9, 3, 7, 8, 6, 4]\<rparr>"

definition small_config :: CacheConfig where
  "small_config =
     \<lparr>total_size = 1024, line_size = 16, associativity = 8, num_banks = 8,
      memory_latency = 100\<rparr>"

text \<open>The four counters that the balance of hits and misses relates.\<close>

definition core_stats :: "MemoryModel \<Rightarrow> 64 word \<times> 64 word \<times> 64 word \<times> 64 word" where
  "core_stats m = (reads (mm_stats m), writes (mm_stats m), hits (mm_stats m), misses (mm_stats m))"

text \<open>
  A cache of 1024 bytes with lines of 16 bytes (8 sets of 8 ways), and a sequence of calls
  that misses, hits, updates, evicts and invalidates.
\<close>

definition example_memory :: MemoryModel where
  "example_memory =
     \<lparr>mm_config = small_config,
      mm_sets = replicate 8 (new_CacheSet 8 16),
      mm_main_memory = (\<lambda>a. 0),
      mm_stats = empty_stats,
      mm_current_cycle = 0,
      mm_access_history = []\<rparr>"

definition example_ops :: "mem_op list" where
  "example_ops =
     [ProcessRequest 64 5 True, ProcessRequest 64 0 False, ProcessRequest 68 0 False,
      ReadInstruction 0, UpdateCache 4 9, LookupCache 4, EvictCacheLine 0 0,
      InvalidateCacheLine 64]"

definition example_final :: MemoryModel where
  "example_final =
     (case run_mem_ops example_memory example_ops of Inr m \<Rightarrow> m | Inl e \<Rightarrow> example_memory)"

subsection \<open>Properties of the memory model\<close>

lemma ebind_Inr [simp]: "ebind (Inr v) f = f v"
  by (simp add: ebind_def)

lemma ebind_Inl [simp]: "ebind (Inl e) f = Inl e"
  by (simp add: ebind_def)

lemma ebind_eq_Inr: "ebind x f = Inr y \<longleftrightarrow> (\<exists>v. x = Inr v \<and> f v = Inr y)"
  by (cases x) simp_all

lemma find_invalid_first_index:
  "i + n \<le> length ws \<Longrightarrow> find_invalid ws i n = Inr (first_index (\<lambda>j. \<not> valid (ws ! j)) i n)"
  by (induction n arbitrary: i) simp_all

lemma lru_scan_min:
  assumes "i + n \<le> length ws" "w < i" "t = last_access (ws ! w)"
    "\<forall>j<i. last_access (ws ! w) \<le> last_access (ws ! j)"
    "\<forall>j<w. last_access (ws ! w) < last_access (ws ! j)"
  shows "\<exists>v. lru_scan ws i n w t = Inr v \<and> v < i + n
           \<and> (\<forall>j<i + n. last_access (ws ! v) \<le> last_access (ws ! j))
           \<and> (\<forall>j<v. last_access (ws ! v) < last_access (ws ! j))"
  using assms
proof (induction n arbitrary: i w t)
  case 0
  then show ?case by auto
next
  case (Suc n)
  from Suc.prems have len: "\<not> length ws \<le> i" by simp
  show ?case
  proof (cases "last_access (ws ! i) < t")
    case True
    have a: "\<forall>j<Suc i. last_access (ws ! i) \<le> last_access (ws ! j)"
    proof (intro allI impI)
      fix j assume "j < Suc i"
      then consider "j < i" | "j = i" by linarith
      then show "last_access (ws ! i) \<le> last_access (ws ! j)"
      proof cases
        case 1
        with Suc.prems have "last_access (ws ! w) \<le> last_access (ws ! j)" by simp
        with True Suc.prems(3) show ?thesis by simp
      next
        case 2
        then show ?thesis by simp
      qed
    qed
    have b: "\<forall>j<i. last_access (ws ! i) < last_access (ws ! j)"
    proof (intro allI impI)
      fix j assume "j < i"
      with Suc.prems have "last_access (ws ! w) \<le> last_access (ws ! j)" by simp
      with True Suc.prems(3) show "last_access (ws ! i) < last_access (ws ! j)" by simp
    qed
    have "\<exists>v. lru_scan ws (Suc i) n i (last_access (ws ! i)) = Inr v \<and> v < Suc i + n
           \<and> (\<forall>j<Suc i + n. last_access (ws ! v) \<le> last_access (ws ! j))
           \<and> (\<forall>j<v. last_access (ws ! v) < last_access (ws ! j))"
      using Suc.prems(1) a b by (intro Suc.IH) simp_all
    with True len show ?thesis by simp
  next
    case False
    have a: "\<forall>j<Suc i. last_access (ws ! w) \<le> last_access (ws ! j)"
    proof (intro allI impI)
      fix j assume "j < Suc i"
      then consider "j < i" | "j = i" by linarith
      then show "last_access (ws ! w) \<le> last_access (ws ! j)"
      proof cases
        case 1
        with Suc.prems show ?thesis by simp
      next
        case 2
        with False Suc.prems(3) show ?thesis by simp
      qed
    qed
    have "\<exists>v. lru_scan ws (Suc i) n w t = Inr v \<and> v < Suc i + n
           \<and> (\<forall>j<Suc i + n. last_access (ws ! v) \<le> last_access (ws ! j))
           \<and> (\<forall>j<v. last_access (ws ! v) < last_access (ws ! j))"
      using Suc.prems a by (intro Suc.IH) simp_all
    with False len show ?thesis by simp
  qed
qed

text \<open>
  C4. For a set that has as many ways as the configured associativity, at least one,
  \<open>select_victim\<close> returns a way of the set: the first invalid way if there is one;
  otherwise a way whose \<open>last_access\<close> is minimal, and the lowest such index.
\<close>

theorem select_victim_policy:
  assumes "length (ways cset) = unat (associativity c)" and "0 < unat (associativity c)"
  shows "\<exists>v. select_victim c cset = Inr v \<and> v < length (ways cset)
           \<and> (if \<exists>i<length (ways cset). \<not> valid (ways cset ! i)
               then \<not> valid (ways cset ! v) \<and> (\<forall>j<v. valid (ways cset ! j))
               else (\<forall>j<length (ways cset). last_access (ways cset ! v) \<le> last_access (ways cset ! j))
                    \<and> (\<forall>j<v. last_access (ways cset ! v) < last_access (ways cset ! j)))"
proof -
  let ?ws = "ways cset"
  let ?a = "unat (associativity c)"
  have fi: "find_invalid ?ws 0 ?a = Inr (first_index (\<lambda>j. \<not> valid (?ws ! j)) 0 ?a)"
    using assms by (intro find_invalid_first_index) simp
  show ?thesis
  proof (cases "first_index (\<lambda>j. \<not> valid (?ws ! j)) 0 ?a")
    case (Some i)
    from first_index_Some [OF Some] have i: "i < ?a" "\<not> valid (?ws ! i)" "\<forall>j<i. valid (?ws ! j)"
      by auto
    have "select_victim c cset = Inr i" by (simp add: select_victim_def fi Some)
    with i assms show ?thesis by auto
  next
    case None
    then have allv: "\<forall>j<?a. valid (?ws ! j)" by (simp add: first_index_None)
    have w0: "at_index ?ws 0 = Inr (?ws ! 0)" using assms by (simp add: at_index_def)
    have sv: "select_victim c cset = lru_scan ?ws 1 (?a - 1) 0 (last_access (?ws ! 0))"
      by (simp add: select_victim_def fi None w0)
    have "\<exists>v. lru_scan ?ws 1 (?a - 1) 0 (last_access (?ws ! 0)) = Inr v \<and> v < 1 + (?a - 1)
           \<and> (\<forall>j<1 + (?a - 1). last_access (?ws ! v) \<le> last_access (?ws ! j))
           \<and> (\<forall>j<v. last_access (?ws ! v) < last_access (?ws ! j))"
      using assms by (intro lru_scan_min) simp_all
    then obtain v where v: "lru_scan ?ws 1 (?a - 1) 0 (last_access (?ws ! 0)) = Inr v" "v < ?a"
      "\<forall>j<?a. last_access (?ws ! v) \<le> last_access (?ws ! j)"
      "\<forall>j<v. last_access (?ws ! v) < last_access (?ws ! j)"
      using assms(2) by auto
    with allv assms sv show ?thesis by auto
  qed
qed

theorem select_victim_policy_witness:
  "length (ways full_set) = unat (associativity small_config)
   \<and> 0 < unat (associativity small_config)
   \<and> select_victim small_config full_set = Inr 1
   \<and> (\<exists>v. select_victim small_config full_set = Inr v \<and> v < length (ways full_set)
           \<and> (if \<exists>i<length (ways full_set). \<not> valid (ways full_set ! i)
               then \<not> valid (ways full_set ! v) \<and> (\<forall>j<v. valid (ways full_set ! j))
               else (\<forall>j<length (ways full_set).
                        last_access (ways full_set ! v) \<le> last_access (ways full_set ! j))
                    \<and> (\<forall>j<v. last_access (ways full_set ! v) < last_access (ways full_set ! j))))"
proof -
  have h: "length (ways full_set) = unat (associativity small_config)"
    "0 < unat (associativity small_config)"
    by (simp_all add: full_set_def small_config_def)
  have v: "select_victim small_config full_set = Inr 1"
    by code_simp
  from select_victim_policy [OF h] h v show ?thesis by blast
qed

lemma ebind_InrE:
  assumes "ebind x f = Inr y"
  obtains v where "x = Inr v" "f v = Inr y"
  using assms by (auto simp: ebind_eq_Inr)

lemma record_access_fields [simp]:
  "mm_stats (record_access a m) = mm_stats m"
  "mm_sets (record_access a m) = mm_sets m"
  "mm_config (record_access a m) = mm_config m"
  "mm_current_cycle (record_access a m) = mm_current_cycle m"
  by (simp_all add: record_access_def)

lemma count_access_fields [simp]:
  "mm_sets (count_access w m) = mm_sets m"
  "mm_config (count_access w m) = mm_config m"
  by (simp_all add: count_access_def)

lemma count_hit_fields [simp]:
  "mm_sets (count_hit h m) = mm_sets m"
  "mm_config (count_hit h m) = mm_config m"
  by (simp_all add: count_hit_def)

lemma put_way_fields [simp]:
  "mm_stats (put_way si w l m) = mm_stats m"
  "mm_config (put_way si w l m) = mm_config m"
  by (simp_all add: put_way_def)

lemma write_back_fields:
  assumes "write_back m l si = Inr m'"
  shows "mm_stats m' = mm_stats m" "mm_sets m' = mm_sets m" "mm_config m' = mm_config m"
  using assms by (auto simp: write_back_def elim!: ebind_InrE)

lemma hit_path_stats:
  assumes "hit_path m si w off d iw = Inr m'"
  shows "mm_stats m' = mm_stats m"
  using assms by (auto simp: hit_path_def elim!: ebind_InrE)

lemma stats_consistent_core: "core_stats m' = core_stats m \<Longrightarrow> stats_consistent m' = stats_consistent m"
  by (simp add: core_stats_def stats_consistent_def)

lemma evicted_core:
  assumes "(if b then ebind (write_back m l si) (\<lambda>m1.
                Inr (m1\<lparr>mm_stats := (mm_stats m1)\<lparr>evictions := evictions (mm_stats m1) + 1\<rparr>\<rparr>))
            else Inr m) = Inr m2"
  shows "core_stats m2 = core_stats m" "mm_sets m2 = mm_sets m"
  using assms
  by (auto simp: core_stats_def split: if_splits elim!: ebind_InrE dest: write_back_fields)

lemma miss_path_core:
  assumes "miss_path m pa si t off d iw = Inr m'"
  shows "core_stats m' = core_stats m"
proof -
  from assms [unfolded miss_path_def ebind_eq_Inr] obtain cset vw victim m2 ds ds' where
    "at_index (mm_sets m) (unat si) = Inr cset"
    "select_victim (mm_config m) cset = Inr vw"
    "at_index (ways cset) vw = Inr victim" and
    m2: "(if valid victim \<and> dirty victim then
              ebind (write_back m victim si) (\<lambda>m1.
                Inr (m1\<lparr>mm_stats := (mm_stats m1)\<lparr>evictions := evictions (mm_stats m1) + 1\<rparr>\<rparr>))
            else Inr m) = Inr m2" and
    "load_line (mm_main_memory m2) (pa AND NOT (line_size (mm_config m) - 1)) 0
              (unat (line_size (mm_config m) div 4)) (line_data victim) = Inr ds"
    "access_word ds off d iw = Inr ds'" and
    m': "Inr (put_way (unat si) vw
              (victim\<lparr>line_data := ds', tag := t, valid := True, dirty := iw,
                      last_access := mm_current_cycle m\<rparr>) m2) = (Inr m' :: error + MemoryModel)"
    by (elim exE conjE) (rule that)
  from evicted_core(1) [OF m2] m' show ?thesis by (auto simp: core_stats_def)
qed

lemma handle_coherence_fields:
  assumes "handle_coherence a m = Inr m'"
  shows "mm_stats m' = mm_stats m"
  using assms by (auto simp: handle_coherence_def elim!: ebind_InrE)

lemma process_request_InrE:
  assumes "process_request m a d iw = Inr (m', c)"
  obtains si t cset hw conflicts m4 m5 where
    "check_alignment a 4"
    "get_set_index (mm_config m) a = Inr si"
    "get_tag (mm_config m) a = Inr t"
    "at_index (mm_sets m) (unat si) = Inr cset"
    "find_hit (ways cset) t 0 (unat (associativity (mm_config m))) = Inr hw"
    "(case hw of
        Some w \<Rightarrow> hit_path (count_hit True (count_access iw (record_access
                      \<lparr>ma_address = a, ma_data = d, ma_is_write = iw,
                        ma_cycle = mm_current_cycle m\<rparr> m))) (unat si) w
                      (get_offset (mm_config m) a) d iw
      | None \<Rightarrow> miss_path (count_hit False (count_access iw (record_access
                      \<lparr>ma_address = a, ma_data = d, ma_is_write = iw,
                        ma_cycle = mm_current_cycle m\<rparr> m))) a si t
                      (get_offset (mm_config m) a) d iw) = Inr m4"
    "handle_coherence a m4 = Inr m5"
    "m' = m5\<lparr>mm_current_cycle := c\<rparr>"
proof -
  let ?m2 = "count_access iw (record_access \<lparr>ma_address = a, ma_data = d, ma_is_write = iw,
                               ma_cycle = mm_current_cycle m\<rparr> m)"
  from assms have al: "check_alignment a 4"
    unfolding process_request_def Let_def by (cases "check_alignment a 4") simp_all
  with assms have 1: "ebind (get_set_index (mm_config ?m2) a) (\<lambda>set_index.
            ebind (get_tag (mm_config ?m2) a) (\<lambda>t.
            ebind (at_index (mm_sets ?m2) (unat set_index)) (\<lambda>cset.
            ebind (find_hit (ways cset) t 0 (unat (associativity (mm_config ?m2)))) (\<lambda>hit_way.
            ebind (check_bank_conflicts (mm_config ?m2) a) (\<lambda>conflicts.
            ebind (case hit_way of
                     Some w \<Rightarrow>
                       hit_path (count_hit True ?m2) (unat set_index) w
                         (get_offset (mm_config ?m2) a) d iw
                   | None \<Rightarrow>
                       miss_path (count_hit False ?m2) a set_index t
                         (get_offset (mm_config ?m2) a) d iw) (\<lambda>m4.
            ebind (handle_coherence a m4) (\<lambda>m5.
              (let latency = calculate_access_latency (mm_config ?m2) a
                               (hit_way \<noteq> None) + conflicts;
                   cycle = mm_current_cycle m5 + ucast latency
               in Inr (m5\<lparr>mm_current_cycle := cycle\<rparr>, cycle))))))))) = Inr (m', c)"
    unfolding process_request_def translate_address_def by (simp only: Let_def if_False simp_thms)
  from 1 [unfolded ebind_eq_Inr Let_def] obtain si t cset hw conflicts m4 m5 where
    si: "get_set_index (mm_config ?m2) a = Inr si" and
    t: "get_tag (mm_config ?m2) a = Inr t" and
    cset: "at_index (mm_sets ?m2) (unat si) = Inr cset" and
    hw: "find_hit (ways cset) t 0 (unat (associativity (mm_config ?m2))) = Inr hw" and
    m4: "(case hw of
                     Some w \<Rightarrow>
                       hit_path (count_hit True ?m2) (unat si) w
                         (get_offset (mm_config ?m2) a) d iw
                   | None \<Rightarrow>
                       miss_path (count_hit False ?m2) a si t
                         (get_offset (mm_config ?m2) a) d iw) = Inr m4" and
    m5: "handle_coherence a m4 = Inr m5" and
    8: "Inr (m5\<lparr>mm_current_cycle := mm_current_cycle m5
             + ucast (calculate_access_latency (mm_config ?m2) a (hw \<noteq> None) + conflicts)\<rparr>,
             mm_current_cycle m5
             + ucast (calculate_access_latency (mm_config ?m2) a (hw \<noteq> None) + conflicts))
          = (Inr (m', c) :: error + MemoryModel \<times> 64 word)"
    by (elim exE conjE) (rule that)
  from 8 have m': "m' = m5\<lparr>mm_current_cycle := c\<rparr>" by auto
  show ?thesis
    using al si t cset hw m4 m5 m'
    by (intro that [of si t cset hw m4 m5]) (simp_all cong: option.case_cong)
qed

lemma count_consistent:
  "stats_consistent m \<Longrightarrow> stats_consistent (count_hit h (count_access iw m))"
  by (cases h; cases iw) (simp_all add: stats_consistent_def count_hit_def count_access_def)

lemma process_request_stats:
  assumes "process_request m a d iw = Inr (m', c)" and "stats_consistent m"
  shows "stats_consistent m'"
proof -
  let ?m2 = "count_access iw (record_access \<lparr>ma_address = a, ma_data = d, ma_is_write = iw,
                               ma_cycle = mm_current_cycle m\<rparr> m)"
  from assms(1) obtain si t cset hw m4 m5 where
    "check_alignment a 4"
    "get_set_index (mm_config m) a = Inr si"
    "get_tag (mm_config m) a = Inr t"
    "at_index (mm_sets m) (unat si) = Inr cset"
    "find_hit (ways cset) t 0 (unat (associativity (mm_config m))) = Inr hw" and
    m4: "(case hw of
        Some w \<Rightarrow> hit_path (count_hit True (count_access iw (record_access
                      \<lparr>ma_address = a, ma_data = d, ma_is_write = iw,
                        ma_cycle = mm_current_cycle m\<rparr> m))) (unat si) w
                      (get_offset (mm_config m) a) d iw
      | None \<Rightarrow> miss_path (count_hit False (count_access iw (record_access
                      \<lparr>ma_address = a, ma_data = d, ma_is_write = iw,
                        ma_cycle = mm_current_cycle m\<rparr> m))) a si t
                      (get_offset (mm_config m) a) d iw) = Inr m4"
    and m5: "handle_coherence a m4 = Inr m5"
    and m': "m' = m5\<lparr>mm_current_cycle := c\<rparr>"
    by (rule process_request_InrE)
  have c4: "core_stats m4 = core_stats (count_hit (hw \<noteq> None) ?m2)"
  proof (cases hw)
    case None
    with m4 have "miss_path (count_hit False ?m2) a si t (get_offset (mm_config m) a) d iw = Inr m4"
      by simp
    from miss_path_core [OF this] None show ?thesis by simp
  next
    case (Some w)
    with m4 have "hit_path (count_hit True ?m2) (unat si) w (get_offset (mm_config m) a) d iw = Inr m4"
      by simp
    from hit_path_stats [OF this] Some show ?thesis by (simp add: core_stats_def)
  qed
  have "stats_consistent (count_hit (hw \<noteq> None) ?m2)"
    using assms(2) by (intro count_consistent) (simp add: stats_consistent_def)
  with stats_consistent_core [OF c4] have "stats_consistent m4" by simp
  with handle_coherence_fields [OF m5] show ?thesis
    by (simp add: m' stats_consistent_def)
qed

lemma update_cache_stats:
  assumes "update_cache m a d = Inr m'" and "stats_consistent m"
  shows "stats_consistent m'"
proof -
  from assms(1) obtain si t cset where
    "get_set_index (mm_config m) a = Inr si"
    "get_tag (mm_config m) a = Inr t"
    "at_index (mm_sets m) (unat si) = Inr cset" and
    r: "(case first_index (\<lambda>i. valid (ways cset ! i) \<and> tag (ways cset ! i) = t) 0
              (length (ways cset)) of
         Some i \<Rightarrow>
           ebind (set_index_at (line_data (ways cset ! i))
                    (unat (get_offset (mm_config m) a div 4)) d) (\<lambda>ds.
             Inr (put_way (unat si) i
                    ((ways cset ! i)\<lparr>line_data := ds, dirty := True,
                                     last_access := mm_current_cycle m\<rparr>) m))
       | None \<Rightarrow> ebind (process_request m a d True) (\<lambda>(m', cycle). Inr m')) = Inr m'"
    unfolding update_cache_def ebind_eq_Inr by (elim exE conjE) (rule that)
  show ?thesis
  proof (cases "first_index (\<lambda>i. valid (ways cset ! i) \<and> tag (ways cset ! i) = t) 0
              (length (ways cset))")
    case None
    with r obtain c where "process_request m a d True = Inr (m', c)"
      by (auto simp: ebind_eq_Inr)
    with assms(2) show ?thesis by (rule process_request_stats [rotated])
  next
    case (Some i)
    with r obtain ds where "m' = put_way (unat si) i
                    ((ways cset ! i)\<lparr>line_data := ds, dirty := True,
                                     last_access := mm_current_cycle m\<rparr>) m"
      by (auto simp: ebind_eq_Inr)
    with assms(2) show ?thesis by (simp add: stats_consistent_def)
  qed
qed

lemma read_instruction_stats:
  assumes "read_instruction m a = Inr (m', d)" and "stats_consistent m"
  shows "stats_consistent m'"
proof -
  from assms(1) obtain r where "lookup_cache m a = Inr r" and
    r: "(case r of
         Some d \<Rightarrow> Inr (m, d)
       | None \<Rightarrow>
           ebind (process_request m a 0 False) (\<lambda>(m', cycle).
           ebind (lookup_cache m' a) (\<lambda>r'.
             case r' of
               Some d \<Rightarrow> Inr (m', d)
             | None \<Rightarrow> Inl UndefinedBehaviour))) = Inr (m', d)"
    unfolding read_instruction_def ebind_eq_Inr by (elim exE conjE) (rule that)
  show ?thesis
  proof (cases r)
    case (Some x)
    with r assms(2) show ?thesis by simp
  next
    case None
    with r obtain m1 c where p: "process_request m a 0 False = Inr (m1, c)"
      and "ebind (lookup_cache m1 a) (\<lambda>r'.
             case r' of
               Some d \<Rightarrow> Inr (m1, d)
             | None \<Rightarrow> Inl UndefinedBehaviour) = Inr (m', d)"
      by (auto simp: ebind_eq_Inr)
    then have "m' = m1" by (auto simp: ebind_eq_Inr split: option.splits)
    with process_request_stats [OF p assms(2)] show ?thesis by simp
  qed
qed

lemma invalidate_ways_fields:
  "invalidate_ways m si t ws = Inr (ws', m') \<Longrightarrow>
     mm_stats m' = mm_stats m \<and> mm_sets m' = mm_sets m \<and> mm_config m' = mm_config m"
proof (induction ws arbitrary: m ws' m')
  case Nil
  then show ?case by simp
next
  case (Cons way rest)
  show ?case
  proof (cases "valid way \<and> tag way = t")
    case True
    with Cons.prems obtain m1 rest' where
      m1: "(if dirty way then write_back m way si else Inr m) = Inr m1"
      and r: "invalidate_ways m1 si t rest = Inr (rest', m')"
      by (auto simp: ebind_eq_Inr)
    from m1 have "mm_stats m1 = mm_stats m \<and> mm_sets m1 = mm_sets m \<and> mm_config m1 = mm_config m"
      by (auto split: if_splits dest: write_back_fields)
    with Cons.IH [OF r] show ?thesis by simp
  next
    case False
    with Cons.prems obtain rest' where r: "invalidate_ways m si t rest = Inr (rest', m')"
      by (auto simp: ebind_eq_Inr)
    from Cons.IH [OF r] show ?thesis .
  qed
qed

lemma invalidate_cache_line_stats:
  assumes "invalidate_cache_line m a = Inr m'"
  shows "mm_stats m' = mm_stats m"
proof -
  from assms [unfolded invalidate_cache_line_def ebind_eq_Inr]
  obtain si t cset wm where
    "get_set_index (mm_config m) a = Inr si"
    "get_tag (mm_config m) a = Inr t"
    "at_index (mm_sets m) (unat si) = Inr cset" and
    w: "invalidate_ways m si t (ways cset) = Inr wm"
    and m': "(case wm of (ws, m1) \<Rightarrow>
       Inr (m1\<lparr>mm_sets := (mm_sets m1)[unat si := cset\<lparr>ways := ws\<rparr>]\<rparr>)) = (Inr m' :: error + MemoryModel)"
    by (elim exE conjE) (rule that)
  obtain ws m1 where wm: "wm = (ws, m1)" by (cases wm)
  from invalidate_ways_fields [OF w [unfolded wm]] m' show ?thesis by (auto simp: wm)
qed

lemma evict_cache_line_core:
  assumes "evict_cache_line m si w = Inr m'"
  shows "core_stats m' = core_stats m"
proof -
  from assms have "ebind (at_index (ways (mm_sets m ! unat si)) (unat w)) (\<lambda>line.
        ebind (if valid line \<and> dirty line then write_back m line si else Inr m) (\<lambda>m1.
          Inr ((put_way (unat si) (unat w) (line\<lparr>valid := False, dirty := False\<rparr>) m1)
                 \<lparr>mm_stats := (mm_stats m1)\<lparr>evictions := evictions (mm_stats m1) + 1\<rparr>\<rparr>)))
       = Inr m'"
    by (simp add: evict_cache_line_def split: if_splits)
  from this [unfolded ebind_eq_Inr] obtain line m1 where
    "at_index (ways (mm_sets m ! unat si)) (unat w) = Inr line" and
    m1: "(if valid line \<and> dirty line then write_back m line si else Inr m) = Inr m1"
    and m': "Inr ((put_way (unat si) (unat w) (line\<lparr>valid := False, dirty := False\<rparr>) m1)
                 \<lparr>mm_stats := (mm_stats m1)\<lparr>evictions := evictions (mm_stats m1) + 1\<rparr>\<rparr>)
              = (Inr m' :: error + MemoryModel)"
    by (elim exE conjE) (rule that)
  from m1 have "mm_stats m1 = mm_stats m"
    by (cases "valid line \<and> dirty line") (auto dest: write_back_fields)
  with m' show ?thesis by (auto simp: core_stats_def)
qed

lemma apply_mem_op_stats:
  assumes "apply_mem_op m x = Inr m'" and "stats_consistent m"
  shows "stats_consistent m'"
proof (cases x)
  case Initialize
  with assms show ?thesis by (auto simp: initialize_def stats_consistent_def empty_stats_def)
next
  case (ProcessRequest a d iw)
  with assms obtain c where "process_request m a d iw = Inr (m', c)"
    by (auto simp: ebind_eq_Inr)
  with assms(2) show ?thesis by (rule process_request_stats [rotated])
next
  case (ReadInstruction a)
  with assms obtain d where "read_instruction m a = Inr (m', d)"
    by (auto simp: ebind_eq_Inr)
  with assms(2) show ?thesis by (rule read_instruction_stats [rotated])
next
  case (LookupCache a)
  with assms show ?thesis by (auto simp: ebind_eq_Inr)
next
  case (UpdateCache a d)
  with assms show ?thesis by (auto intro: update_cache_stats)
next
  case (EvictCacheLine si w)
  with assms have "core_stats m' = core_stats m" by (auto intro: evict_cache_line_core)
  from stats_consistent_core [OF this] assms(2) show ?thesis by simp
next
  case (InvalidateCacheLine a)
  with assms have "mm_stats m' = mm_stats m" by (auto intro: invalidate_cache_line_stats)
  with assms(2) show ?thesis by (simp add: stats_consistent_def)
qed

lemma run_mem_ops_stats:
  "run_mem_ops m xs = Inr m' \<Longrightarrow> stats_consistent m \<Longrightarrow> stats_consistent m'"
proof (induction xs arbitrary: m)
  case Nil
  then show ?case by simp
next
  case (Cons x xs)
  from Cons.prems(1) obtain m1 where a: "apply_mem_op m x = Inr m1" and r: "run_mem_ops m1 xs = Inr m'"
    by (auto simp: ebind_eq_Inr)
  from apply_mem_op_stats [OF a Cons.prems(2)] Cons.IH [OF r] show ?case by simp
qed

lemma new_MemoryModel_stats:
  "new_MemoryModel cs ls lat = Inr m \<Longrightarrow> stats_consistent m"
  by (auto simp: new_MemoryModel_def stats_consistent_def empty_stats_def split: if_splits)

lemma lines_consistent_iff:
  "lines_consistent m \<longleftrightarrow> (\<forall>cset\<in>set (mm_sets m). \<forall>way\<in>set (ways cset). valid way \<or> \<not> dirty way)"
  by (simp add: lines_consistent_def list_all_iff)

lemma lines_consistent_cong: "mm_sets m' = mm_sets m \<Longrightarrow> lines_consistent m' = lines_consistent m"
  by (simp add: lines_consistent_def)

lemma in_set_updateD: "x \<in> set (xs[i := y]) \<Longrightarrow> x = y \<or> x \<in> set xs"
  using set_update_subset_insert [of xs i y] by auto

lemma put_way_lines:
  assumes "lines_consistent m" and "valid l \<or> \<not> dirty l"
  shows "lines_consistent (put_way si w l m)"
proof (cases "si < length (mm_sets m)")
  case False
  then have "mm_sets (put_way si w l m) = mm_sets m"
    by (simp add: put_way_def list_update_beyond not_less)
  with assms(1) show ?thesis by (simp add: lines_consistent_def)
next
  case True
  let ?old = "mm_sets m ! si"
  let ?new = "?old\<lparr>ways := (ways ?old)[w := l]\<rparr>"
  have old: "\<forall>way\<in>set (ways ?old). valid way \<or> \<not> dirty way"
    using assms(1) nth_mem [OF True] by (auto simp: lines_consistent_iff)
  have new: "\<forall>way\<in>set (ways ?new). valid way \<or> \<not> dirty way"
  proof
    fix way assume "way \<in> set (ways ?new)"
    then have "way = l \<or> way \<in> set (ways ?old)" by (auto dest: in_set_updateD)
    with old assms(2) show "valid way \<or> \<not> dirty way" by auto
  qed
  show ?thesis
    unfolding lines_consistent_iff
  proof
    fix cset assume "cset \<in> set (mm_sets (put_way si w l m))"
    then have "cset = ?new \<or> cset \<in> set (mm_sets m)"
      by (auto simp: put_way_def dest: in_set_updateD)
    with new assms(1) show "\<forall>way\<in>set (ways cset). valid way \<or> \<not> dirty way"
      by (auto simp: lines_consistent_iff)
  qed
qed

lemma find_hit_Some:
  "find_hit ws t i n = Inr (Some w) \<Longrightarrow> w < length ws \<and> valid (ws ! w) \<and> tag (ws ! w) = t"
  by (induction n arbitrary: i) (auto split: if_splits)

lemma hit_path_lines:
  assumes "hit_path m si w off d iw = Inr m'" and "lines_consistent m"
    and "at_index (mm_sets m) si = Inr cset" and "valid (ways cset ! w)"
  shows "lines_consistent m'"
proof -
  from assms(1) [unfolded hit_path_def ebind_eq_Inr] obtain cset' line ds where
    c: "at_index (mm_sets m) si = Inr cset'" and
    l: "at_index (ways cset') w = Inr line" and
    "access_word (line_data line) off d iw = Inr ds" and
    m': "Inr (put_way si w
              (line\<lparr>last_access := mm_current_cycle m, line_data := ds,
                    dirty := (if iw then True else dirty line)\<rparr>) m) = (Inr m' :: error + MemoryModel)"
    by (elim exE conjE) (rule that)
  from c assms(3) have "cset' = cset" by simp
  with l assms(4) have v: "valid line" by (auto simp: at_index_def split: if_splits)
  from m' have "m' = put_way si w
              (line\<lparr>last_access := mm_current_cycle m, line_data := ds,
                    dirty := (if iw then True else dirty line)\<rparr>) m" by simp
  with assms(2) v show ?thesis by (simp add: put_way_lines)
qed

lemma miss_path_lines:
  assumes "miss_path m pa si t off d iw = Inr m'" and "lines_consistent m"
  shows "lines_consistent m'"
proof -
  from assms(1) [unfolded miss_path_def ebind_eq_Inr] obtain cset vw victim m2 ds ds' where
    "at_index (mm_sets m) (unat si) = Inr cset"
    "select_victim (mm_config m) cset = Inr vw"
    "at_index (ways cset) vw = Inr victim" and
    m2: "(if valid victim \<and> dirty victim then
              ebind (write_back m victim si) (\<lambda>m1.
                Inr (m1\<lparr>mm_stats := (mm_stats m1)\<lparr>evictions := evictions (mm_stats m1) + 1\<rparr>\<rparr>))
            else Inr m) = Inr m2" and
    "load_line (mm_main_memory m2) (pa AND NOT (line_size (mm_config m) - 1)) 0
              (unat (line_size (mm_config m) div 4)) (line_data victim) = Inr ds"
    "access_word ds off d iw = Inr ds'" and
    m': "Inr (put_way (unat si) vw
              (victim\<lparr>line_data := ds', tag := t, valid := True, dirty := iw,
                      last_access := mm_current_cycle m\<rparr>) m2) = (Inr m' :: error + MemoryModel)"
    by (elim exE conjE) (rule that)
  from evicted_core(2) [OF m2] assms(2) have "lines_consistent m2"
    by (simp add: lines_consistent_def)
  with m' show ?thesis by (auto intro: put_way_lines)
qed

lemma handle_coherence_lines:
  assumes "handle_coherence a m = Inr m'" and "lines_consistent m"
  shows "lines_consistent m'"
proof -
  from assms(1) [unfolded handle_coherence_def ebind_eq_Inr] obtain si t where
    "get_set_index (mm_config m) a = Inr si" "get_tag (mm_config m) a = Inr t" and
    m': "Inr (m\<lparr>mm_sets :=
              map (\<lambda>set. set\<lparr>ways :=
                     map (\<lambda>way. if valid way \<and> tag way = t then way\<lparr>dirty := True\<rparr> else way)
                       (ways set)\<rparr>)
                (mm_sets m)\<rparr>) = (Inr m' :: error + MemoryModel)"
    by (elim exE conjE) (rule that)
  let ?g = "\<lambda>way. if valid way \<and> tag way = t then way\<lparr>dirty := True\<rparr> else way"
  from m' have sets: "mm_sets m' = map (\<lambda>c. c\<lparr>ways := map ?g (ways c)\<rparr>) (mm_sets m)"
    by auto
  show ?thesis
    unfolding lines_consistent_iff
  proof (intro ballI)
    fix cset way
    assume "cset \<in> set (mm_sets m')" and w: "way \<in> set (ways cset)"
    then obtain c0 where c0: "c0 \<in> set (mm_sets m)" "cset = c0\<lparr>ways := map ?g (ways c0)\<rparr>"
      unfolding sets by auto
    with w obtain w0 where w0: "w0 \<in> set (ways c0)" "way = ?g w0" by auto
    from assms(2) c0(1) w0(1) have "valid w0 \<or> \<not> dirty w0"
      unfolding lines_consistent_iff by blast
    then show "valid way \<or> \<not> dirty way"
      unfolding w0(2) by (cases "valid w0 \<and> tag w0 = t") auto
  qed
qed

lemma process_request_lines:
  assumes "process_request m a d iw = Inr (m', c)" and "lines_consistent m"
  shows "lines_consistent m'"
proof -
  let ?m2 = "count_access iw (record_access \<lparr>ma_address = a, ma_data = d, ma_is_write = iw,
                               ma_cycle = mm_current_cycle m\<rparr> m)"
  from assms(1) obtain si t cset hw m4 m5 where
    "check_alignment a 4"
    "get_set_index (mm_config m) a = Inr si"
    "get_tag (mm_config m) a = Inr t" and
    cset: "at_index (mm_sets m) (unat si) = Inr cset" and
    hw: "find_hit (ways cset) t 0 (unat (associativity (mm_config m))) = Inr hw" and
    m4: "(case hw of
        Some w \<Rightarrow> hit_path (count_hit True (count_access iw (record_access
                      \<lparr>ma_address = a, ma_data = d, ma_is_write = iw,
                        ma_cycle = mm_current_cycle m\<rparr> m))) (unat si) w
                      (get_offset (mm_config m) a) d iw
      | None \<Rightarrow> miss_path (count_hit False (count_access iw (record_access
                      \<lparr>ma_address = a, ma_data = d, ma_is_write = iw,
                        ma_cycle = mm_current_cycle m\<rparr> m))) a si t
                      (get_offset (mm_config m) a) d iw) = Inr m4"
    and m5: "handle_coherence a m4 = Inr m5"
    and m': "m' = m5\<lparr>mm_current_cycle := c\<rparr>"
    by (rule process_request_InrE)
  have l2: "\<And>h. lines_consistent (count_hit h ?m2)"
    using assms(2) by (simp add: lines_consistent_def)
  have "lines_consistent m4"
  proof (cases hw)
    case None
    with m4 have "miss_path (count_hit False ?m2) a si t (get_offset (mm_config m) a) d iw = Inr m4"
      by simp
    from miss_path_lines [OF this l2] show ?thesis .
  next
    case (Some w)
    with m4 have h: "hit_path (count_hit True ?m2) (unat si) w (get_offset (mm_config m) a) d iw = Inr m4"
      by simp
    from hw Some have v: "valid (ways cset ! w)" by (auto dest: find_hit_Some)
    have c: "at_index (mm_sets (count_hit True ?m2)) (unat si) = Inr cset" using cset by simp
    from hit_path_lines [OF h l2 c v] show ?thesis .
  qed
  from handle_coherence_lines [OF m5 this] show ?thesis
    by (simp add: m' lines_consistent_def)
qed

lemma update_cache_lines:
  assumes "update_cache m a d = Inr m'" and "lines_consistent m"
  shows "lines_consistent m'"
proof -
  from assms(1) [unfolded update_cache_def ebind_eq_Inr] obtain si t cset where
    "get_set_index (mm_config m) a = Inr si"
    "get_tag (mm_config m) a = Inr t"
    "at_index (mm_sets m) (unat si) = Inr cset" and
    r: "(case first_index (\<lambda>i. valid (ways cset ! i) \<and> tag (ways cset ! i) = t) 0
              (length (ways cset)) of
         Some i \<Rightarrow>
           ebind (set_index_at (line_data (ways cset ! i))
                    (unat (get_offset (mm_config m) a div 4)) d) (\<lambda>ds.
             Inr (put_way (unat si) i
                    ((ways cset ! i)\<lparr>line_data := ds, dirty := True,
                                     last_access := mm_current_cycle m\<rparr>) m))
       | None \<Rightarrow> ebind (process_request m a d True) (\<lambda>(m', cycle). Inr m')) = Inr m'"
    by (elim exE conjE) (rule that)
  show ?thesis
  proof (cases "first_index (\<lambda>i. valid (ways cset ! i) \<and> tag (ways cset ! i) = t) 0
              (length (ways cset))")
    case None
    with r obtain c where "process_request m a d True = Inr (m', c)"
      by (auto simp: ebind_eq_Inr)
    with assms(2) show ?thesis by (rule process_request_lines [rotated])
  next
    case (Some i)
    from first_index_Some [OF Some] have v: "valid (ways cset ! i)" by simp
    from Some r obtain ds where "m' = put_way (unat si) i
                    ((ways cset ! i)\<lparr>line_data := ds, dirty := True,
                                     last_access := mm_current_cycle m\<rparr>) m"
      by (auto simp: ebind_eq_Inr)
    with assms(2) v show ?thesis by (simp add: put_way_lines)
  qed
qed

lemma read_instruction_lines:
  assumes "read_instruction m a = Inr (m', d)" and "lines_consistent m"
  shows "lines_consistent m'"
proof -
  from assms(1) [unfolded read_instruction_def ebind_eq_Inr] obtain r where
    "lookup_cache m a = Inr r" and
    r: "(case r of
         Some d \<Rightarrow> Inr (m, d)
       | None \<Rightarrow>
           ebind (process_request m a 0 False) (\<lambda>(m', cycle).
           ebind (lookup_cache m' a) (\<lambda>r'.
             case r' of
               Some d \<Rightarrow> Inr (m', d)
             | None \<Rightarrow> Inl UndefinedBehaviour))) = Inr (m', d)"
    by (elim exE conjE) (rule that)
  show ?thesis
  proof (cases r)
    case (Some x)
    with r assms(2) show ?thesis by simp
  next
    case None
    with r obtain m1 c where p: "process_request m a 0 False = Inr (m1, c)"
      and "ebind (lookup_cache m1 a) (\<lambda>r'.
             case r' of
               Some d \<Rightarrow> Inr (m1, d)
             | None \<Rightarrow> Inl UndefinedBehaviour) = Inr (m', d)"
      by (auto simp: ebind_eq_Inr)
    then have "m' = m1" by (auto simp: ebind_eq_Inr split: option.splits)
    with process_request_lines [OF p assms(2)] show ?thesis by simp
  qed
qed

lemma invalidate_ways_lines:
  "invalidate_ways m si t ws = Inr (ws', m') \<Longrightarrow>
     \<forall>way\<in>set ws. valid way \<or> \<not> dirty way \<Longrightarrow>
     \<forall>way\<in>set ws'. valid way \<or> \<not> dirty way"
proof (induction ws arbitrary: m ws' m')
  case Nil
  then show ?case by simp
next
  case (Cons way rest)
  show ?case
  proof (cases "valid way \<and> tag way = t")
    case True
    with Cons.prems(1) obtain m1 rest' where
      r: "invalidate_ways m1 si t rest = Inr (rest', m')"
      and ws': "ws' = way\<lparr>valid := False, dirty := False\<rparr> # rest'"
      by (auto simp: ebind_eq_Inr)
    from Cons.IH [OF r] Cons.prems(2) show ?thesis by (simp add: ws')
  next
    case False
    with Cons.prems(1) obtain rest' where r: "invalidate_ways m si t rest = Inr (rest', m')"
      and ws': "ws' = way # rest'"
      by (auto simp: ebind_eq_Inr)
    from Cons.IH [OF r] Cons.prems(2) show ?thesis by (simp add: ws')
  qed
qed

lemma invalidate_cache_line_lines:
  assumes "invalidate_cache_line m a = Inr m'" and "lines_consistent m"
  shows "lines_consistent m'"
proof -
  from assms(1) [unfolded invalidate_cache_line_def ebind_eq_Inr]
  obtain si t cset wm where
    "get_set_index (mm_config m) a = Inr si"
    "get_tag (mm_config m) a = Inr t" and
    cset: "at_index (mm_sets m) (unat si) = Inr cset" and
    w: "invalidate_ways m si t (ways cset) = Inr wm"
    and m': "(case wm of (ws, m1) \<Rightarrow>
       Inr (m1\<lparr>mm_sets := (mm_sets m1)[unat si := cset\<lparr>ways := ws\<rparr>]\<rparr>)) = (Inr m' :: error + MemoryModel)"
    by (elim exE conjE) (rule that)
  obtain ws m1 where wm: "wm = (ws, m1)" by (cases wm)
  from invalidate_ways_fields [OF w [unfolded wm]] have s1: "mm_sets m1 = mm_sets m" by simp
  from cset have "cset \<in> set (mm_sets m)" by (auto simp: at_index_def split: if_splits)
  with assms(2) have "\<forall>way\<in>set (ways cset). valid way \<or> \<not> dirty way"
    by (simp add: lines_consistent_iff)
  from invalidate_ways_lines [OF w [unfolded wm] this]
  have ok: "\<forall>way\<in>set ws. valid way \<or> \<not> dirty way" .
  from m' have sets: "mm_sets m' = (mm_sets m)[unat si := cset\<lparr>ways := ws\<rparr>]"
    by (auto simp: wm s1)
  show ?thesis
    unfolding lines_consistent_iff
  proof
    fix c assume "c \<in> set (mm_sets m')"
    then have "c = cset\<lparr>ways := ws\<rparr> \<or> c \<in> set (mm_sets m)"
      unfolding sets by (rule in_set_updateD)
    with ok assms(2) show "\<forall>way\<in>set (ways c). valid way \<or> \<not> dirty way"
      by (auto simp: lines_consistent_iff)
  qed
qed

lemma evict_cache_line_lines:
  assumes "evict_cache_line m si w = Inr m'" and "lines_consistent m"
  shows "lines_consistent m'"
proof -
  from assms have "ebind (at_index (ways (mm_sets m ! unat si)) (unat w)) (\<lambda>line.
        ebind (if valid line \<and> dirty line then write_back m line si else Inr m) (\<lambda>m1.
          Inr ((put_way (unat si) (unat w) (line\<lparr>valid := False, dirty := False\<rparr>) m1)
                 \<lparr>mm_stats := (mm_stats m1)\<lparr>evictions := evictions (mm_stats m1) + 1\<rparr>\<rparr>)))
       = Inr m'"
    by (simp add: evict_cache_line_def split: if_splits)
  from this [unfolded ebind_eq_Inr] obtain line m1 where
    "at_index (ways (mm_sets m ! unat si)) (unat w) = Inr line" and
    m1: "(if valid line \<and> dirty line then write_back m line si else Inr m) = Inr m1"
    and m': "Inr ((put_way (unat si) (unat w) (line\<lparr>valid := False, dirty := False\<rparr>) m1)
                 \<lparr>mm_stats := (mm_stats m1)\<lparr>evictions := evictions (mm_stats m1) + 1\<rparr>\<rparr>)
              = (Inr m' :: error + MemoryModel)"
    by (elim exE conjE) (rule that)
  from m1 have "mm_sets m1 = mm_sets m"
    by (cases "valid line \<and> dirty line") (auto dest: write_back_fields)
  with assms(2) have "lines_consistent m1" by (simp add: lines_consistent_def)
  then have "lines_consistent (put_way (unat si) (unat w) (line\<lparr>valid := False, dirty := False\<rparr>) m1)"
    by (rule put_way_lines) simp
  with m' show ?thesis by (auto simp: lines_consistent_def)
qed

lemma initialize_lines: "lines_consistent (initialize m)"
  by (simp add: lines_consistent_iff initialize_def)

lemma new_MemoryModel_lines: "new_MemoryModel cs ls lat = Inr m \<Longrightarrow> lines_consistent m"
  by (auto simp: new_MemoryModel_def lines_consistent_iff new_CacheSet_def new_CacheLine_def
      split: if_splits)

lemma apply_mem_op_lines:
  assumes "apply_mem_op m x = Inr m'" and "lines_consistent m"
  shows "lines_consistent m'"
proof (cases x)
  case Initialize
  with assms show ?thesis by (auto simp: initialize_lines)
next
  case (ProcessRequest a d iw)
  with assms obtain c where "process_request m a d iw = Inr (m', c)"
    by (auto simp: ebind_eq_Inr)
  with assms(2) show ?thesis by (rule process_request_lines [rotated])
next
  case (ReadInstruction a)
  with assms obtain d where "read_instruction m a = Inr (m', d)"
    by (auto simp: ebind_eq_Inr)
  with assms(2) show ?thesis by (rule read_instruction_lines [rotated])
next
  case (LookupCache a)
  with assms show ?thesis by (auto simp: ebind_eq_Inr)
next
  case (UpdateCache a d)
  with assms show ?thesis by (auto intro: update_cache_lines)
next
  case (EvictCacheLine si w)
  with assms show ?thesis by (auto intro: evict_cache_line_lines)
next
  case (InvalidateCacheLine a)
  with assms show ?thesis by (auto intro: invalidate_cache_line_lines)
qed

lemma run_mem_ops_lines:
  "run_mem_ops m xs = Inr m' \<Longrightarrow> lines_consistent m \<Longrightarrow> lines_consistent m'"
proof (induction xs arbitrary: m)
  case Nil
  then show ?case by simp
next
  case (Cons x xs)
  from Cons.prems(1) obtain m1 where a: "apply_mem_op m x = Inr m1" and r: "run_mem_ops m1 xs = Inr m'"
    by (auto simp: ebind_eq_Inr)
  from apply_mem_op_lines [OF a Cons.prems(2)] Cons.IH [OF r] show ?case by simp
qed

lemma example_memory_new: "new_MemoryModel 1024 16 100 = Inr example_memory"
  by (simp add: example_memory_def new_MemoryModel_def small_config_def)

lemma example_run_evaluated:
  "case run_mem_ops example_memory example_ops of
     Inr m \<Rightarrow> reads (mm_stats m) = 3 \<and> writes (mm_stats m) = 1 \<and> hits (mm_stats m) = 2
              \<and> misses (mm_stats m) = 2 \<and> evictions (mm_stats m) = 1
   | Inl e \<Rightarrow> False"
  by code_simp

lemma example_run: "run_mem_ops example_memory example_ops = Inr example_final"
  using example_run_evaluated
  by (cases "run_mem_ops example_memory example_ops") (simp_all add: example_final_def)

lemma example_final_stats:
  "reads (mm_stats example_final) = 3 \<and> writes (mm_stats example_final) = 1
   \<and> hits (mm_stats example_final) = 2 \<and> misses (mm_stats example_final) = 2"
  using example_run_evaluated by (simp add: example_run)

text \<open>
  C5. After every sequence of operations on a memory model made by the constructor, the
  counters satisfy hits + misses = reads + writes (in the 64-bit arithmetic of the
  counters).
\<close>

theorem cache_stats_balance:
  assumes "new_MemoryModel cache_size lsize latency = Inr m0"
    and "run_mem_ops m0 ops = Inr m"
  shows "hits (mm_stats m) + misses (mm_stats m) = reads (mm_stats m) + writes (mm_stats m)"
proof -
  from assms(1) have "stats_consistent m0" by (rule new_MemoryModel_stats)
  with assms(2) have "stats_consistent m" by (rule run_mem_ops_stats)
  then show ?thesis by (simp add: stats_consistent_def)
qed

theorem cache_stats_balance_witness:
  "new_MemoryModel 1024 16 100 = Inr example_memory
   \<and> run_mem_ops example_memory example_ops = Inr example_final
   \<and> hits (mm_stats example_final) + misses (mm_stats example_final)
       = reads (mm_stats example_final) + writes (mm_stats example_final)
   \<and> hits (mm_stats example_final) = 2 \<and> misses (mm_stats example_final) = 2"
  using cache_stats_balance [OF example_memory_new example_run] example_memory_new example_run
    example_final_stats
  by simp

text \<open>
  C6. Every line is valid or not dirty: in the memory model the constructor makes, after
  \<open>initialize\<close>, after every operation that returns (a hit, a miss with its refill, an
  update, an invalidation, an eviction) when it held before, and so after every sequence
  of operations.
\<close>

theorem cache_lines_valid_or_clean:
  "(new_MemoryModel cache_size lsize latency = Inr m0 \<longrightarrow> lines_consistent m0)
   \<and> lines_consistent (initialize m)
   \<and> (lines_consistent m \<and> apply_mem_op m x = Inr m' \<longrightarrow> lines_consistent m')
   \<and> (new_MemoryModel cache_size lsize latency = Inr m0 \<and> run_mem_ops m0 ops = Inr m1
        \<longrightarrow> (\<forall>cset\<in>set (mm_sets m1). \<forall>way\<in>set (ways cset). valid way \<or> \<not> dirty way))"
proof (intro conjI impI)
  assume "new_MemoryModel cache_size lsize latency = Inr m0"
  then show "lines_consistent m0" by (rule new_MemoryModel_lines)
next
  show "lines_consistent (initialize m)" by (rule initialize_lines)
next
  assume "lines_consistent m \<and> apply_mem_op m x = Inr m'"
  then show "lines_consistent m'" by (auto intro: apply_mem_op_lines)
next
  assume a: "new_MemoryModel cache_size lsize latency = Inr m0 \<and> run_mem_ops m0 ops = Inr m1"
  then have "lines_consistent m0" by (auto intro: new_MemoryModel_lines)
  with a have "lines_consistent m1" by (auto intro: run_mem_ops_lines)
  then show "\<forall>cset\<in>set (mm_sets m1). \<forall>way\<in>set (ways cset). valid way \<or> \<not> dirty way"
    by (simp add: lines_consistent_iff)
qed

theorem cache_lines_valid_or_clean_witness:
  "new_MemoryModel 1024 16 100 = Inr example_memory
   \<and> lines_consistent example_memory
   \<and> lines_consistent (initialize example_memory)
   \<and> apply_mem_op example_memory (ProcessRequest 64 5 True)
       = Inr (fst (projr (process_request example_memory 64 5 True)))
   \<and> lines_consistent (fst (projr (process_request example_memory 64 5 True)))
   \<and> run_mem_ops example_memory example_ops = Inr example_final
   \<and> list_all (\<lambda>cset. list_all (\<lambda>way. valid way \<or> \<not> dirty way) (ways cset))
        (mm_sets example_final)"
proof -
  have p: "apply_mem_op example_memory (ProcessRequest 64 5 True)
       = Inr (fst (projr (process_request example_memory 64 5 True)))"
    by code_simp
  have l0: "lines_consistent example_memory"
    using cache_lines_valid_or_clean [where cache_size = 1024 and lsize = 16
        and latency = 100 and ?m0.0 = example_memory] example_memory_new
    by simp
  from cache_lines_valid_or_clean
    [where cache_size = 1024 and lsize = 16 and latency = 100 and ?m0.0 = example_memory
      and m = example_memory and x = "ProcessRequest 64 5 True"
      and m' = "fst (projr (process_request example_memory 64 5 True))"
      and ops = example_ops and ?m1.0 = example_final]
    example_memory_new example_run p l0
  show ?thesis by (simp add: list_all_iff)
qed

section \<open>Simulation engine (sim\_engine.h, sim\_engine.cpp)\<close>

record MemoryTransaction =
  mt_address :: "32 word"
  mt_data :: "32 word"
  mt_is_write :: bool
  mt_size :: "32 word"
  mt_warp_id :: "32 word"
  mt_thread_mask :: "32 word"

datatype EventType =
  MEMORY_REQUEST | MEMORY_RESPONSE | INSTRUCTION_FETCH | WARP_COMPLETE | SIMULATION_END

text \<open>
  The \<open>void*\<close> of an event: a pointer to a transaction on the heap, or an integer cast to
  a pointer (a warp number; zero is the null pointer).
\<close>

datatype event_data = Transaction MemoryTransaction | Integer "64 word"

record SimEvent =
  ev_type :: EventType
  ev_time :: "64 word"
  ev_data :: event_data

record SimConfig =
  num_warps :: "32 word"
  threads_per_warp :: "32 word"
  cache_size :: "32 word"
  cache_line_size :: "32 word"
  sc_memory_latency :: "32 word"

text \<open>
  The counters of \<open>SimStats\<close>. Its two \<open>double\<close> members, \<open>ipc\<close> and \<open>cache_hit_rate\<close>,
  are written by \<open>calculate_performance_metrics\<close> only and read by the printer only; they
  are left out.
\<close>

record SimStats =
  total_cycles :: "64 word"
  instructions_executed :: "64 word"
  memory_requests :: "64 word"
  cache_hits :: "64 word"
  cache_misses :: "64 word"

record WarpState =
  pc :: "32 word"
  thread_mask :: "32 word"
  ws_active :: bool
  last_active :: "64 word"

record TraceEntry =
  te_time :: "64 word"
  te_type :: EventType
  te_warp_id :: "32 word"
  te_address :: "32 word"
  te_data :: "32 word"

text \<open>
  The members of the class, with the prefix \<open>se_\<close> in place of the trailing underscore.
  The priority queue is kept as the list of its events in the order they were pushed.
\<close>

record SimulationEngine =
  se_config :: SimConfig
  se_stats :: SimStats
  se_running :: bool
  se_current_time :: "64 word"
  se_event_queue :: "SimEvent list"
  se_memory_model :: MemoryModel
  se_warp_states :: "WarpState list"
  se_simulation_trace :: "TraceEntry list"

definition TRACE_RESERVE_SIZE :: nat where
  "TRACE_RESERVE_SIZE = 10000"

definition zero_stats :: SimStats where
  "zero_stats = \<lparr>total_cycles = 0, instructions_executed = 0, memory_requests = 0,
                  cache_hits = 0, cache_misses = 0\<rparr>"

text \<open>
  The constructor. It does not assign \<open>stats_\<close>, whose content stays indeterminate until
  \<open>initialize\<close>; the argument \<open>indeterminate\<close> stands for that content.
\<close>

definition new_SimulationEngine :: "SimConfig \<Rightarrow> SimStats \<Rightarrow> error + SimulationEngine" where
  "new_SimulationEngine config indeterminate =
     ebind (new_MemoryModel (cache_size config) (cache_line_size config)
              (sc_memory_latency config)) (\<lambda>mm.
       Inr \<lparr>se_config = config, se_stats = indeterminate, se_running = False,
            se_current_time = 0, se_event_queue = [], se_memory_model = mm,
            se_warp_states =
              replicate (unat (num_warps config))
                \<lparr>pc = 0, thread_mask = 4294967295, ws_active = True, last_active = 0\<rparr>,
            se_simulation_trace = []\<rparr>)"

definition schedule_event :: "EventType \<Rightarrow> 64 word \<Rightarrow> event_data \<Rightarrow> SimulationEngine \<Rightarrow> SimulationEngine" where
  "schedule_event type delay d e =
     e\<lparr>se_event_queue :=
         se_event_queue e @ [\<lparr>ev_type = type, ev_time = se_current_time e + delay, ev_data = d\<rparr>]\<rparr>"

text \<open>\<open>for (warp_id = 0; warp_id < num_warps; ++warp_id) schedule_event(INSTRUCTION_FETCH, 0, warp_id)\<close>\<close>

fun schedule_fetches :: "nat \<Rightarrow> nat \<Rightarrow> SimulationEngine \<Rightarrow> SimulationEngine" where
  "schedule_fetches warp_id 0 e = e"
| "schedule_fetches warp_id (Suc n) e =
     schedule_fetches (Suc warp_id) n
       (schedule_event INSTRUCTION_FETCH 0 (Integer (of_nat warp_id)) e)"

definition engine_initialize :: "SimulationEngine \<Rightarrow> SimulationEngine" where
  "engine_initialize e =
     schedule_fetches 0 (unat (num_warps (se_config e)))
       (e\<lparr>se_current_time := 0, se_stats := zero_stats, se_event_queue := [],
          se_simulation_trace := [], se_memory_model := initialize (se_memory_model e)\<rparr>)"

text \<open>
  The two static callbacks. Each holds a function-local \<open>static SimulationEngine* instance =
  nullptr\<close> that nothing assigns: the pointer is null at every call. \<open>None\<close> is the null
  pointer; the guarded branch is written out for the engine at hand.
\<close>

definition memory_request_callback_instance :: "unit option" where
  "memory_request_callback_instance = None"

definition instruction_complete_callback_instance :: "unit option" where
  "instruction_complete_callback_instance = None"

definition memory_request_callback :: "32 word \<Rightarrow> 32 word \<Rightarrow> bool \<Rightarrow> 32 word \<Rightarrow> 32 word \<Rightarrow> SimulationEngine \<Rightarrow> SimulationEngine" where
  "memory_request_callback address d is_write warp_id tmask e =
     (let tr = \<lparr>mt_address = address, mt_data = d, mt_is_write = is_write, mt_size = 4,
                   mt_warp_id = warp_id, mt_thread_mask = tmask\<rparr>
      in case memory_request_callback_instance of
           None \<Rightarrow> e
         | Some inst \<Rightarrow> schedule_event MEMORY_REQUEST 1 (Transaction tr) e)"

definition instruction_complete_callback :: "32 word \<Rightarrow> 32 word \<Rightarrow> 32 word \<Rightarrow> SimulationEngine \<Rightarrow> error + SimulationEngine" where
  "instruction_complete_callback warp_id pcv instruction e =
     (case instruction_complete_callback_instance of
        None \<Rightarrow> Inr e
      | Some inst \<Rightarrow>
          ebind (at_index (se_warp_states e) (unat warp_id)) (\<lambda>warp.
            (let e1 = e\<lparr>se_warp_states := (se_warp_states e)[unat warp_id :=
                          warp\<lparr>pc := pcv + 4, last_active := se_current_time e\<rparr>]\<rparr>;
                 is_branch = (instruction AND 127 = 99);
                 is_exit = (instruction AND 127 = 115)
             in if is_exit
                then Inr (schedule_event WARP_COMPLETE 1 (Integer (ucast warp_id)) e1)
                else Inr (schedule_event INSTRUCTION_FETCH (if is_branch then 3 else 1)
                            (Integer (ucast warp_id)) e1))))"

text \<open>
  \<open>log_event\<close>. A transaction is read through the pointer of a memory event, a warp number
  out of the pointer of a fetch or completion event; a pointer that is not null and of the
  other kind leaves the entry unspecified.
\<close>

definition log_event :: "SimEvent \<Rightarrow> SimulationEngine \<Rightarrow> error + SimulationEngine" where
  "log_event event e =
     (if length (se_simulation_trace e) < TRACE_RESERVE_SIZE then
        (let entry = \<lparr>te_time = ev_time event, te_type = ev_type event, te_warp_id = 0,
                       te_address = 0, te_data = 0\<rparr>
         in ebind
              (if ev_data event = Integer 0 then Inr entry
               else
                 (case ev_type event of
                    MEMORY_REQUEST \<Rightarrow>
                      (case ev_data event of
                         Transaction tr \<Rightarrow>
                           Inr (entry\<lparr>te_warp_id := mt_warp_id tr,
                                      te_address := mt_address tr, te_data := mt_data tr\<rparr>)
                       | Integer n \<Rightarrow> Inl UndefinedBehaviour)
                  | MEMORY_RESPONSE \<Rightarrow>
                      (case ev_data event of
                         Transaction tr \<Rightarrow>
                           Inr (entry\<lparr>te_warp_id := mt_warp_id tr,
                                      te_address := mt_address tr, te_data := mt_data tr\<rparr>)
                       | Integer n \<Rightarrow> Inl UndefinedBehaviour)
                  | INSTRUCTION_FETCH \<Rightarrow>
                      (case ev_data event of
                         Integer n \<Rightarrow> Inr (entry\<lparr>te_warp_id := ucast n\<rparr>)
                       | Transaction tr \<Rightarrow> Inl UndefinedBehaviour)
                  | WARP_COMPLETE \<Rightarrow>
                      (case ev_data event of
                         Integer n \<Rightarrow> Inr (entry\<lparr>te_warp_id := ucast n\<rparr>)
                       | Transaction tr \<Rightarrow> Inl UndefinedBehaviour)
                  | SIMULATION_END \<Rightarrow> Inr entry))
              (\<lambda>entry'. Inr (e\<lparr>se_simulation_trace := se_simulation_trace e @ [entry']\<rparr>)))
      else Inr e)"

definition process_memory_request :: "MemoryTransaction \<Rightarrow> SimulationEngine \<Rightarrow> error + SimulationEngine" where
  "process_memory_request tr e =
     (let e1 = e\<lparr>se_stats := (se_stats e)\<lparr>memory_requests := memory_requests (se_stats e) + 1\<rparr>\<rparr>
      in ebind (process_request (se_memory_model e1) (mt_address tr) (mt_data tr)
                  (mt_is_write tr)) (\<lambda>(mm, response_time).
           (let e2 = e1\<lparr>se_memory_model := mm\<rparr>;
                e3 = (if \<not> mt_is_write tr
                      then schedule_event MEMORY_RESPONSE response_time (Transaction tr) e2
                      else e2)
            in ebind (at_index (se_warp_states e3) (unat (mt_warp_id tr))) (\<lambda>warp.
                 Inr (e3\<lparr>se_warp_states := (se_warp_states e3)[unat (mt_warp_id tr) :=
                            warp\<lparr>last_active := se_current_time e3\<rparr>]\<rparr>)))))"

definition process_memory_response :: "MemoryTransaction \<Rightarrow> SimulationEngine \<Rightarrow> error + SimulationEngine" where
  "process_memory_response tr e =
     Inr (schedule_event INSTRUCTION_FETCH 1 (Integer (ucast (mt_warp_id tr)))
            (memory_request_callback (mt_address tr) (mt_data tr) False
               (mt_warp_id tr) (mt_thread_mask tr) e))"

definition process_instruction_fetch :: "32 word \<Rightarrow> SimulationEngine \<Rightarrow> error + SimulationEngine" where
  "process_instruction_fetch warp_id e =
     ebind (at_index (se_warp_states e) (unat warp_id)) (\<lambda>warp.
       if \<not> ws_active warp then Inr e
       else
         ebind (read_instruction (se_memory_model e) (pc warp)) (\<lambda>(mm, instruction).
           (let e1 = e\<lparr>se_memory_model := mm,
                       se_stats := (se_stats e)\<lparr>instructions_executed :=
                                      instructions_executed (se_stats e) + 1\<rparr>\<rparr>
            in ebind (instruction_complete_callback warp_id (pc warp) instruction e1) (\<lambda>e2.
               ebind (at_index (se_warp_states e2) (unat warp_id)) (\<lambda>warp2.
                 Inr (schedule_event INSTRUCTION_FETCH 4 (Integer (ucast warp_id))
                        (e2\<lparr>se_warp_states := (se_warp_states e2)[unat warp_id :=
                               warp2\<lparr>pc := pc warp2 + 4\<rparr>]\<rparr>)))))))"

definition all_inactive :: "SimulationEngine \<Rightarrow> bool" where
  "all_inactive e \<longleftrightarrow> list_all (\<lambda>w. \<not> ws_active w) (se_warp_states e)"

definition process_warp_complete :: "32 word \<Rightarrow> SimulationEngine \<Rightarrow> error + SimulationEngine" where
  "process_warp_complete warp_id e =
     ebind (at_index (se_warp_states e) (unat warp_id)) (\<lambda>warp.
       (let e1 = e\<lparr>se_warp_states := (se_warp_states e)[unat warp_id :=
                      warp\<lparr>ws_active := False\<rparr>]\<rparr>
        in if all_inactive e1 then Inr (schedule_event SIMULATION_END 1 (Integer 0) e1)
           else Inr e1))"

text \<open>
  \<open>process_event\<close>: the event is logged, then dispatched on its type. The pointer is cast
  to what the type asks for; a pointer of the other kind is not usable as such.
\<close>

definition process_event :: "SimEvent \<Rightarrow> SimulationEngine \<Rightarrow> error + SimulationEngine" where
  "process_event event e0 =
     ebind (log_event event e0) (\<lambda>e.
       case ev_type event of
         MEMORY_REQUEST \<Rightarrow>
           (case ev_data event of
              Transaction tr \<Rightarrow> process_memory_request tr e
            | Integer n \<Rightarrow> Inl UndefinedBehaviour)
       | MEMORY_RESPONSE \<Rightarrow>
           (case ev_data event of
              Transaction tr \<Rightarrow> process_memory_response tr e
            | Integer n \<Rightarrow> Inl UndefinedBehaviour)
       | INSTRUCTION_FETCH \<Rightarrow>
           (case ev_data event of
              Integer n \<Rightarrow> process_instruction_fetch (ucast n) e
            | Transaction tr \<Rightarrow> Inl UndefinedBehaviour)
       | WARP_COMPLETE \<Rightarrow>
           (case ev_data event of
              Integer n \<Rightarrow> process_warp_complete (ucast n) e
            | Transaction tr \<Rightarrow> Inl UndefinedBehaviour)
       | SIMULATION_END \<Rightarrow> Inr (e\<lparr>se_running := False\<rparr>))"

definition update_statistics :: "SimulationEngine \<Rightarrow> SimulationEngine" where
  "update_statistics e =
     e\<lparr>se_stats := (se_stats e)\<lparr>total_cycles := se_current_time e,
                                  cache_hits := fst (get_cache_stats (se_memory_model e)),
                                  cache_misses := snd (get_cache_stats (se_memory_model e))\<rparr>\<rparr>"

text \<open>
  \<open>event_queue_\<close> is a \<open>std::priority_queue\<close> over \<open>std::greater<SimEvent>\<close>, and
  \<open>operator>\<close> of \<open>SimEvent\<close> compares the times only. \<open>top()\<close> is an event of least
  time; which one among several of the same least time it is depends on the
  implementation of the heap and on the pushes and pops made so far. That choice is the
  parameter \<open>c\<close>: the events of least time, in the order in which they were pushed, are
  numbered from 0, and \<open>c\<close> (modulo their number) names the one at the top. The queue
  itself is the list of the events it holds, in the order in which they were pushed.
\<close>

definition least_events :: "SimEvent list \<Rightarrow> SimEvent list" where
  "least_events q = filter (\<lambda>x. list_all (\<lambda>y. ev_time x \<le> ev_time y) q) q"

definition top :: "nat \<Rightarrow> SimEvent list \<Rightarrow> SimEvent" where
  "top c q = least_events q ! (c mod length (least_events q))"

definition pop :: "nat \<Rightarrow> SimEvent list \<Rightarrow> SimEvent list" where
  "pop c q = remove1 (top c q) q"

definition CYCLE_LIMIT :: "64 word" where
  "CYCLE_LIMIT = 1000000"

text \<open>
  The body of the loop of \<open>run\<close>; it is entered with an event in the queue. \<open>c\<close> is the
  choice the heap makes at this \<open>top()\<close>.
\<close>

definition run_iteration :: "nat \<Rightarrow> SimulationEngine \<Rightarrow> error + SimulationEngine" where
  "run_iteration c e =
     (let event = top c (se_event_queue e);
          e1 = e\<lparr>se_event_queue := pop c (se_event_queue e), se_current_time := ev_time event\<rparr>
      in ebind (process_event event e1) (\<lambda>e2.
           (let e3 = (if se_current_time e2 mod 1000 = 0 then update_statistics e2 else e2)
            in Inr (if CYCLE_LIMIT \<le> se_current_time e3 \<or> all_inactive e3
                    then e3\<lparr>se_running := False\<rparr> else e3))))"

subsection \<open>Termination of the event loop\<close>

text \<open>
  The loop of \<open>run\<close> ends: every event pushes at most one event, of a kind that weighs
  less, and a fetch re-schedules itself only while the clock is below the cycle limit, for
  otherwise \<open>running\<close> has been cleared.
\<close>

definition fetch_weight :: "64 word \<Rightarrow> nat" where
  "fetch_weight t = (if t < CYCLE_LIMIT then unat CYCLE_LIMIT - unat t + 1 else 1)"

definition event_weight :: "SimEvent \<Rightarrow> nat" where
  "event_weight ev =
     (case ev_type ev of
        MEMORY_REQUEST \<Rightarrow> unat CYCLE_LIMIT + 4
      | MEMORY_RESPONSE \<Rightarrow> unat CYCLE_LIMIT + 3
      | INSTRUCTION_FETCH \<Rightarrow> fetch_weight (ev_time ev)
      | WARP_COMPLETE \<Rightarrow> 2
      | SIMULATION_END \<Rightarrow> 1)"

definition queue_weight :: "SimEvent list \<Rightarrow> nat" where
  "queue_weight q = sum_list (map event_weight q)"

definition loop_measure :: "SimulationEngine \<Rightarrow> nat" where
  "loop_measure e =
     (if se_running e \<and> se_event_queue e \<noteq> [] then Suc (queue_weight (se_event_queue e)) else 0)"

text \<open>What an event may push: one event at most, of a kind that weighs less.\<close>

definition follows :: "SimEvent \<Rightarrow> 64 word \<Rightarrow> SimEvent \<Rightarrow> bool" where
  "follows ev now new \<longleftrightarrow>
     ev_type ev = MEMORY_REQUEST \<and> ev_type new = MEMORY_RESPONSE
     \<or> ev_type ev = MEMORY_RESPONSE \<and> ev_type new = INSTRUCTION_FETCH
     \<or> ev_type ev = INSTRUCTION_FETCH \<and> ev_type new = INSTRUCTION_FETCH \<and> ev_time new = now + 4
     \<or> ev_type ev = WARP_COMPLETE \<and> ev_type new = SIMULATION_END"

definition pushes :: "SimEvent \<Rightarrow> SimulationEngine \<Rightarrow> SimulationEngine \<Rightarrow> bool" where
  "pushes ev e e' \<longleftrightarrow>
     se_current_time e' = se_current_time e
     \<and> (se_event_queue e' = se_event_queue e
         \<or> (\<exists>new. se_event_queue e' = se_event_queue e @ [new] \<and> follows ev (se_current_time e) new))"

lemma least_events_nonempty:
  assumes "q \<noteq> []"
  shows "least_events q \<noteq> []"
proof -
  from assms have "Min (ev_time ` set q) \<in> ev_time ` set q" by (intro Min_in) simp_all
  then obtain x where x: "x \<in> set q" "ev_time x = Min (ev_time ` set q)" by auto
  have "\<forall>y \<in> set q. ev_time x \<le> ev_time y" using x(2) by simp
  with x(1) have "x \<in> set (least_events q)" by (simp add: least_events_def list_all_iff)
  then show ?thesis by auto
qed

lemma top_least_event: "q \<noteq> [] \<Longrightarrow> top c q \<in> set (least_events q)"
  using least_events_nonempty [of q] by (simp add: top_def)

lemma top_mem: "q \<noteq> [] \<Longrightarrow> top c q \<in> set q"
  using top_least_event [of q c] by (simp add: least_events_def)

lemma top_least: "q \<noteq> [] \<Longrightarrow> y \<in> set q \<Longrightarrow> ev_time (top c q) \<le> ev_time y"
  using top_least_event [of q c] by (simp add: least_events_def list_all_iff)

lemma queue_weight_pop:
  assumes "q \<noteq> []"
  shows "queue_weight (pop c q) + event_weight (top c q) = queue_weight q"
  using sum_list_map_remove1 [OF top_mem [OF assms], of event_weight c]
  by (simp add: queue_weight_def pop_def)

lemma log_event_frame:
  assumes "log_event ev e = Inr e'"
  shows "se_event_queue e' = se_event_queue e" "se_current_time e' = se_current_time e"
    "se_running e' = se_running e" "se_warp_states e' = se_warp_states e"
    "se_memory_model e' = se_memory_model e" "se_stats e' = se_stats e"
    "se_config e' = se_config e"
  using assms
  by (auto simp: log_event_def Let_def ebind_eq_Inr split: if_splits)

lemma schedule_event_fields [simp]:
  "se_current_time (schedule_event ty dl d e) = se_current_time e"
  "se_running (schedule_event ty dl d e) = se_running e"
  "se_warp_states (schedule_event ty dl d e) = se_warp_states e"
  "se_event_queue (schedule_event ty dl d e)
     = se_event_queue e @ [\<lparr>ev_type = ty, ev_time = se_current_time e + dl, ev_data = d\<rparr>]"
  by (simp_all add: schedule_event_def)

lemma process_memory_request_pushes:
  assumes "process_memory_request tr e = Inr e'"
  shows "se_current_time e' = se_current_time e \<and> se_running e' = se_running e
     \<and> (se_event_queue e' = se_event_queue e
         \<or> (\<exists>new. se_event_queue e' = se_event_queue e @ [new] \<and> ev_type new = MEMORY_RESPONSE))"
  using assms
  by (auto simp: process_memory_request_def Let_def ebind_eq_Inr split: if_splits)

lemma memory_request_callback_id [simp]:
  "memory_request_callback a d w wid tm e = e"
  by (simp add: memory_request_callback_def memory_request_callback_instance_def)

lemma instruction_complete_callback_id [simp]:
  "instruction_complete_callback wid p i e = Inr e"
  by (simp add: instruction_complete_callback_def instruction_complete_callback_instance_def)

lemma process_memory_response_pushes:
  assumes "process_memory_response tr e = Inr e'"
  shows "se_current_time e' = se_current_time e \<and> se_running e' = se_running e
     \<and> (\<exists>new. se_event_queue e' = se_event_queue e @ [new] \<and> ev_type new = INSTRUCTION_FETCH)"
  using assms by (auto simp: process_memory_response_def)

lemma process_instruction_fetch_pushes:
  assumes "process_instruction_fetch wid e = Inr e'"
  shows "se_current_time e' = se_current_time e \<and> se_running e' = se_running e
     \<and> (se_event_queue e' = se_event_queue e
         \<or> (\<exists>new. se_event_queue e' = se_event_queue e @ [new] \<and> ev_type new = INSTRUCTION_FETCH
               \<and> ev_time new = se_current_time e + 4))"
  using assms
  by (auto simp: process_instruction_fetch_def Let_def ebind_eq_Inr split: if_splits)

lemma process_warp_complete_pushes:
  assumes "process_warp_complete wid e = Inr e'"
  shows "se_current_time e' = se_current_time e \<and> se_running e' = se_running e
     \<and> (se_event_queue e' = se_event_queue e
         \<or> (\<exists>new. se_event_queue e' = se_event_queue e @ [new] \<and> ev_type new = SIMULATION_END))"
  using assms
  by (auto simp: process_warp_complete_def Let_def ebind_eq_Inr split: if_splits)

lemma process_event_pushes:
  assumes "process_event ev e = Inr e'"
  shows "pushes ev e e'" and "ev_type ev = SIMULATION_END \<longrightarrow> \<not> se_running e'"
proof -
  from assms [unfolded process_event_def ebind_eq_Inr] obtain e1 where
    l: "log_event ev e = Inr e1" and
    d: "(case ev_type ev of
         MEMORY_REQUEST \<Rightarrow>
           (case ev_data ev of
              Transaction tr \<Rightarrow> process_memory_request tr e1
            | Integer n \<Rightarrow> Inl UndefinedBehaviour)
       | MEMORY_RESPONSE \<Rightarrow>
           (case ev_data ev of
              Transaction tr \<Rightarrow> process_memory_response tr e1
            | Integer n \<Rightarrow> Inl UndefinedBehaviour)
       | INSTRUCTION_FETCH \<Rightarrow>
           (case ev_data ev of
              Integer n \<Rightarrow> process_instruction_fetch (ucast n) e1
            | Transaction tr \<Rightarrow> Inl UndefinedBehaviour)
       | WARP_COMPLETE \<Rightarrow>
           (case ev_data ev of
              Integer n \<Rightarrow> process_warp_complete (ucast n) e1
            | Transaction tr \<Rightarrow> Inl UndefinedBehaviour)
       | SIMULATION_END \<Rightarrow> Inr (e1\<lparr>se_running := False\<rparr>)) = Inr e'"
    by (elim exE conjE) (rule that)
  note f = log_event_frame(1,2) [OF l]
  have "pushes ev e1 e' \<and> (ev_type ev = SIMULATION_END \<longrightarrow> \<not> se_running e')"
  proof (cases "ev_type ev")
    case MEMORY_REQUEST
    with d obtain tr where "process_memory_request tr e1 = Inr e'"
      by (cases "ev_data ev") auto
    from process_memory_request_pushes [OF this] MEMORY_REQUEST show ?thesis
      by (auto simp: pushes_def follows_def)
  next
    case MEMORY_RESPONSE
    with d obtain tr where "process_memory_response tr e1 = Inr e'"
      by (cases "ev_data ev") auto
    from process_memory_response_pushes [OF this] MEMORY_RESPONSE show ?thesis
      by (auto simp: pushes_def follows_def)
  next
    case INSTRUCTION_FETCH
    with d obtain n where "process_instruction_fetch n e1 = Inr e'"
      by (cases "ev_data ev") auto
    from process_instruction_fetch_pushes [OF this] INSTRUCTION_FETCH show ?thesis
      by (auto simp: pushes_def follows_def)
  next
    case WARP_COMPLETE
    with d obtain n where "process_warp_complete n e1 = Inr e'"
      by (cases "ev_data ev") auto
    from process_warp_complete_pushes [OF this] WARP_COMPLETE show ?thesis
      by (auto simp: pushes_def follows_def)
  next
    case SIMULATION_END
    with d show ?thesis by (auto simp: pushes_def)
  qed
  with f show "pushes ev e e'" and "ev_type ev = SIMULATION_END \<longrightarrow> \<not> se_running e'"
    by (simp_all add: pushes_def)
qed

lemma fetch_weight_bounds: "1 \<le> fetch_weight t" "fetch_weight t \<le> unat CYCLE_LIMIT + 1"
  by (simp_all add: fetch_weight_def)

lemma fetch_weight_step:
  assumes "t < CYCLE_LIMIT"
  shows "fetch_weight (t + 4) < fetch_weight t"
proof -
  from assms have lt: "unat t < 1000000" by (simp add: CYCLE_LIMIT_def word_less_nat_alt)
  then have u: "unat (t + 4) = unat t + 4"
    by (simp add: unat_word_ariths)
  show ?thesis
    using assms lt u by (auto simp: fetch_weight_def CYCLE_LIMIT_def word_less_nat_alt)
qed

lemma follows_lighter:
  assumes "follows ev now new" and "ev_time ev = now" and "now < CYCLE_LIMIT"
  shows "event_weight new < event_weight ev"
  using assms fetch_weight_bounds [of "ev_time new"] fetch_weight_step [of now]
  by (auto simp: follows_def event_weight_def)

lemma update_statistics_fields [simp]:
  "se_event_queue (update_statistics e) = se_event_queue e"
  "se_current_time (update_statistics e) = se_current_time e"
  "se_running (update_statistics e) = se_running e"
  "se_warp_states (update_statistics e) = se_warp_states e"
  by (simp_all add: update_statistics_def)

lemma all_inactive_update_statistics [simp]:
  "all_inactive (update_statistics e) = all_inactive e"
  by (simp add: all_inactive_def)

lemma run_iteration_decreases:
  assumes "run_iteration c e = Inr e'" and "se_event_queue e \<noteq> []" and "se_running e'"
  shows "queue_weight (se_event_queue e') < queue_weight (se_event_queue e)"
proof -
  let ?ev = "top c (se_event_queue e)"
  let ?e1 = "e\<lparr>se_event_queue := pop c (se_event_queue e), se_current_time := ev_time ?ev\<rparr>"
  from assms(1) [unfolded run_iteration_def Let_def ebind_eq_Inr] obtain e2 where
    p: "process_event ?ev ?e1 = Inr e2" and
    r: "Inr (if CYCLE_LIMIT \<le> se_current_time (if se_current_time e2 mod 1000 = 0 then update_statistics e2 else e2)
               \<or> all_inactive (if se_current_time e2 mod 1000 = 0 then update_statistics e2 else e2)
             then (if se_current_time e2 mod 1000 = 0 then update_statistics e2 else e2)\<lparr>se_running := False\<rparr>
             else (if se_current_time e2 mod 1000 = 0 then update_statistics e2 else e2))
        = (Inr e' :: error + SimulationEngine)"
    by (elim exE conjE) (rule that)
  from process_event_pushes(1) [OF p] have pu: "pushes ?ev ?e1 e2" .
  then have t2: "se_current_time e2 = ev_time ?ev" by (simp add: pushes_def)
  from r assms(3) have lim: "\<not> CYCLE_LIMIT \<le> se_current_time e2"
    and q: "se_event_queue e' = se_event_queue e2"
    by (auto split: if_splits)
  from lim t2 have lt: "ev_time ?ev < CYCLE_LIMIT" by simp
  from pu have "queue_weight (se_event_queue e2) < queue_weight (pop c (se_event_queue e)) + event_weight ?ev"
  proof -
    from pu consider "se_event_queue e2 = pop c (se_event_queue e)"
      | new where "se_event_queue e2 = pop c (se_event_queue e) @ [new]" "follows ?ev (ev_time ?ev) new"
      by (auto simp: pushes_def)
    then show ?thesis
    proof cases
      case 1
      have "0 < event_weight ?ev"
        using fetch_weight_bounds(1) [of "ev_time ?ev"]
        by (cases "ev_type ?ev") (simp_all add: event_weight_def)
      with 1 show ?thesis by simp
    next
      case 2
      from follows_lighter [OF 2(2) refl lt] 2(1) show ?thesis
        by (simp add: queue_weight_def)
    qed
  qed
  with queue_weight_pop [OF assms(2)] q show ?thesis by simp
qed

text \<open>
  The loop of \<open>run\<close>. \<open>tie k\<close> is the choice the heap makes at the \<open>top()\<close> of iteration
  \<open>k\<close>.
\<close>

function run_loop :: "(nat \<Rightarrow> nat) \<Rightarrow> nat \<Rightarrow> SimulationEngine \<Rightarrow> error + SimulationEngine" where
  "run_loop tie k e =
     (if se_running e \<and> se_event_queue e \<noteq> [] then
        (case run_iteration (tie k) e of
           Inl err \<Rightarrow> Inl err
         | Inr e' \<Rightarrow> run_loop tie (Suc k) e')
      else Inr e)"
  by pat_completeness auto
termination
proof (relation "measure (\<lambda>(tie, k, e). loop_measure e)")
  show "wf (measure (\<lambda>(tie, k, e). loop_measure e))" by simp
next
  fix tie :: "nat \<Rightarrow> nat" and k e e'
  assume c: "se_running e \<and> se_event_queue e \<noteq> []" and i: "run_iteration (tie k) e = Inr e'"
  show "((tie, Suc k, e'), (tie, k, e)) \<in> measure (\<lambda>(tie, k, e). loop_measure e)"
  proof (cases "se_running e' \<and> se_event_queue e' \<noteq> []")
    case False
    with c show ?thesis by (auto simp: loop_measure_def)
  next
    case True
    with run_iteration_decreases [OF i] c show ?thesis
      by (auto simp: loop_measure_def)
  qed
qed

text \<open>
  \<open>calculate_performance_metrics\<close> writes the two \<open>double\<close> members only, which are not
  represented.
\<close>

definition calculate_performance_metrics :: "SimulationEngine \<Rightarrow> SimulationEngine" where
  "calculate_performance_metrics e = e"

definition run :: "(nat \<Rightarrow> nat) \<Rightarrow> SimulationEngine \<Rightarrow> error + SimulationEngine" where
  "run tie e =
     (case run_loop tie 0 (e\<lparr>se_running := True\<rparr>) of
        Inl err \<Rightarrow> Inl err
      | Inr e' \<Rightarrow> Inr (calculate_performance_metrics e'))"

text \<open>
  The loop condition \<open>running_ && !event_queue_.empty()\<close> on the outcome of the iterations
  made so far, and the first \<open>n\<close> iterations of the loop one after the other.
\<close>

definition continuing :: "error + SimulationEngine \<Rightarrow> bool" where
  "continuing r = (case r of Inl err \<Rightarrow> False | Inr e \<Rightarrow> se_running e \<and> se_event_queue e \<noteq> [])"

fun iterations :: "(nat \<Rightarrow> nat) \<Rightarrow> nat \<Rightarrow> nat \<Rightarrow> SimulationEngine \<Rightarrow> error + SimulationEngine" where
  "iterations tie k 0 e = Inr e"
| "iterations tie k (Suc n) e = ebind (run_iteration (tie k) e) (iterations tie (Suc k) n)"

text \<open>The heap that yields, among events of the same least time, the earliest pushed.\<close>

definition earliest_pushed :: "nat \<Rightarrow> nat" where
  "earliest_pushed k = 0"

section \<open>DPI wrapper (dpi\_types.h, dpi\_wrapper.h, dpi\_wrapper.cpp)\<close>

record MemoryTransactionDPI =
  dpi_address :: "32 word"
  dpi_data :: "32 word"
  dpi_is_write :: "8 word"
  dpi_size :: "32 word"
  dpi_warp_id :: "32 word"
  dpi_thread_mask :: "32 word"

datatype DPIError =
  SUCCESS | INVALID_ADDRESS | INVALID_WARP | INVALID_THREAD | MEMORY_ERROR | SIMULATION_ERROR

text \<open>The two \<open>unique_ptr\<close> members are empty (\<open>None\<close>) until \<open>initialize\<close>.\<close>

record DPIWrapper =
  dw_sim_engine :: "SimulationEngine option"
  dw_memory_model :: "MemoryModel option"
  dw_initialized :: bool

text \<open>
  \<open>validate_address\<close> throws \<open>std::invalid_argument("Address must be 4-byte aligned")\<close>,
  \<open>validate_warp_id\<close> throws \<open>std::out_of_range\<close>.
\<close>

definition validate_address :: "32 word \<Rightarrow> error + unit" where
  "validate_address address = (if address mod 4 \<noteq> 0 then Inl AlignmentFault else Inr ())"

definition validate_warp_id :: "SimulationEngine \<Rightarrow> 32 word \<Rightarrow> error + unit" where
  "validate_warp_id se warp_id =
     (if num_warps (se_config se) \<le> warp_id then Inl OutOfRange else Inr ())"

text \<open>
  \<open>DPIWrapper::process_memory_request\<close>. The exceptions of the two validations are caught
  and answered with \<open>MEMORY_ERROR\<close>; a failed assertion or an undefined operation inside
  the memory model is not an exception and ends the call (\<open>Inl\<close>).
\<close>

definition dpi_process_memory_request :: "DPIWrapper \<Rightarrow> MemoryTransactionDPI \<Rightarrow> error + (DPIWrapper \<times> DPIError)" where
  "dpi_process_memory_request w t =
     (if \<not> dw_initialized w then Inr (w, SIMULATION_ERROR)
      else
        (case (dw_sim_engine w, dw_memory_model w) of
           (Some se, Some mm) \<Rightarrow>
             (case validate_address (dpi_address t) of
                Inl ex \<Rightarrow> Inr (w, MEMORY_ERROR)
              | Inr u \<Rightarrow>
                  (case validate_warp_id se (dpi_warp_id t) of
                     Inl ex \<Rightarrow> Inr (w, MEMORY_ERROR)
                   | Inr u' \<Rightarrow>
                       ebind (process_request mm (dpi_address t) (dpi_data t)
                                (dpi_is_write t \<noteq> 0)) (\<lambda>(mm', completion_time).
                         (let se' =
                                (if dpi_is_write t = 0 then
                                   schedule_event MEMORY_RESPONSE
                                     (completion_time - se_current_time se)
                                     (Transaction
                                        \<lparr>mt_address = dpi_address t, mt_data = dpi_data t,
                                         mt_is_write = False, mt_size = dpi_size t,
                                         mt_warp_id = dpi_warp_id t,
                                         mt_thread_mask = dpi_thread_mask t\<rparr>) se
                                 else se)
                          in Inr (w\<lparr>dw_sim_engine := Some se', dw_memory_model := Some mm'\<rparr>,
                                  SUCCESS)))))
         | other \<Rightarrow> Inl UndefinedBehaviour))"

text \<open>An access is naturally aligned when its address is a multiple of its size.\<close>

definition naturally_aligned :: "MemoryTransactionDPI \<Rightarrow> bool" where
  "naturally_aligned t \<longleftrightarrow> dpi_address t mod dpi_size t = 0"

text \<open>An engine of two warps over the example memory, and a wrapper that holds both.\<close>

definition example_engine :: SimulationEngine where
  "example_engine =
     \<lparr>se_config = \<lparr>num_warps = 2, threads_per_warp = 32, cache_size = 1024,
                    cache_line_size = 16, sc_memory_latency = 100\<rparr>,
      se_stats = zero_stats, se_running = False, se_current_time = 0, se_event_queue = [],
      se_memory_model = example_memory,
      se_warp_states =
        replicate 2 \<lparr>pc = 0, thread_mask = 4294967295, ws_active = True, last_active = 0\<rparr>,
      se_simulation_trace = []\<rparr>"

definition example_wrapper :: DPIWrapper where
  "example_wrapper =
     \<lparr>dw_sim_engine = Some example_engine, dw_memory_model = Some example_memory,
      dw_initialized = True\<rparr>"

text \<open>A halfword read at address 2.\<close>

definition halfword_access :: MemoryTransactionDPI where
  "halfword_access =
     \<lparr>dpi_address = 2, dpi_data = 0, dpi_is_write = 0, dpi_size = 2, dpi_warp_id = 0,
      dpi_thread_mask = 1\<rparr>"

text \<open>
  The engine with three events: the completion of warp 1 at cycle 5, a fetch of warp 1
  at cycle 2000000 and a fetch of warp 0 at cycle 3000000.
\<close>

definition overrun_engine :: SimulationEngine where
  "overrun_engine =
     schedule_event INSTRUCTION_FETCH 3000000 (Integer 0)
       (schedule_event INSTRUCTION_FETCH 2000000 (Integer 1)
          (schedule_event WARP_COMPLETE 5 (Integer 1) example_engine))"

text \<open>An aligned word read at address 64.\<close>

definition word_access :: MemoryTransactionDPI where
  "word_access =
     \<lparr>dpi_address = 64, dpi_data = 0, dpi_is_write = 0, dpi_size = 4, dpi_warp_id = 0,
      dpi_thread_mask = 1\<rparr>"

subsection \<open>Properties of the simulation engine and of the DPI wrapper\<close>

lemma ebind_nf:
  assumes "x \<noteq> Inl AlignmentFault" and "\<And>v. x = Inr v \<Longrightarrow> f v \<noteq> Inl AlignmentFault"
  shows "ebind x f \<noteq> Inl AlignmentFault"
  using assms by (cases x) auto

lemma index_bits_nf: "index_bits c \<noteq> Inl AlignmentFault"
  by (simp add: index_bits_def Let_def)

lemma get_set_index_nf: "get_set_index c a \<noteq> Inl AlignmentFault"
  unfolding get_set_index_def by (intro ebind_nf index_bits_nf) (auto split: prod.splits)

lemma get_tag_nf: "get_tag c a \<noteq> Inl AlignmentFault"
  unfolding get_tag_def by (intro ebind_nf index_bits_nf) (auto split: prod.splits)

lemma at_index_nf: "at_index xs i \<noteq> Inl AlignmentFault"
  by (simp add: at_index_def)

lemma set_index_at_nf: "set_index_at xs i v \<noteq> Inl AlignmentFault"
  by (simp add: set_index_at_def)

lemma find_hit_nf: "find_hit ws t i n \<noteq> Inl AlignmentFault"
  by (induction n arbitrary: i) simp_all

lemma find_invalid_nf: "find_invalid ws i n \<noteq> Inl AlignmentFault"
  by (induction n arbitrary: i) simp_all

lemma lru_scan_nf: "lru_scan ws i n w t \<noteq> Inl AlignmentFault"
  by (induction n arbitrary: i w t) simp_all

lemma load_line_nf: "load_line mem base i n ds \<noteq> Inl AlignmentFault"
  by (induction n arbitrary: i ds) simp_all

lemma select_victim_nf: "select_victim c cset \<noteq> Inl AlignmentFault"
  unfolding select_victim_def
proof (intro ebind_nf find_invalid_nf)
  fix r
  show "(case r of
         Some i \<Rightarrow> Inr i
       | None \<Rightarrow>
           ebind (at_index (ways cset) 0) (\<lambda>w0.
             lru_scan (ways cset) 1 (unat (associativity c) - 1) 0 (last_access w0)))
        \<noteq> Inl AlignmentFault"
  proof (cases r)
    case None
    have "ebind (at_index (ways cset) 0) (\<lambda>w0.
             lru_scan (ways cset) 1 (unat (associativity c) - 1) 0 (last_access w0))
          \<noteq> Inl AlignmentFault"
      by (intro ebind_nf at_index_nf lru_scan_nf)
    with None show ?thesis by simp
  next
    case (Some i)
    then show ?thesis by simp
  qed
qed

lemma check_bank_conflicts_nf: "check_bank_conflicts c a \<noteq> Inl AlignmentFault"
  by (simp add: check_bank_conflicts_def get_bank_index_def)

lemma access_word_nf: "access_word ds off d iw \<noteq> Inl AlignmentFault"
proof (cases iw)
  case True
  then show ?thesis by (simp add: access_word_def set_index_at_nf)
next
  case False
  have "ebind (at_index ds (unat (off div 4))) (\<lambda>r. Inr ds) \<noteq> Inl AlignmentFault"
    by (intro ebind_nf at_index_nf) simp
  with False show ?thesis by (simp add: access_word_def)
qed

lemma line_base_address_nf: "line_base_address c t si \<noteq> Inl AlignmentFault"
  unfolding line_base_address_def by (intro ebind_nf get_tag_nf) simp

lemma write_back_nf: "write_back m l si \<noteq> Inl AlignmentFault"
  unfolding write_back_def by (intro ebind_nf line_base_address_nf) simp

lemma hit_path_nf: "hit_path m si w off d iw \<noteq> Inl AlignmentFault"
  unfolding hit_path_def by (intro ebind_nf at_index_nf access_word_nf) simp

lemma evict_step_nf:
  "(if b then ebind (write_back m l si) (\<lambda>m1.
                Inr (m1\<lparr>mm_stats := (mm_stats m1)\<lparr>evictions := evictions (mm_stats m1) + 1\<rparr>\<rparr>))
            else Inr m) \<noteq> Inl AlignmentFault"
proof (cases b)
  case True
  have "ebind (write_back m l si) (\<lambda>m1.
                Inr (m1\<lparr>mm_stats := (mm_stats m1)\<lparr>evictions := evictions (mm_stats m1) + 1\<rparr>\<rparr>))
        \<noteq> Inl AlignmentFault"
    by (intro ebind_nf write_back_nf) simp
  with True show ?thesis by simp
next
  case False
  then show ?thesis by simp
qed

lemma miss_path_nf: "miss_path m pa si t off d iw \<noteq> Inl AlignmentFault"
  unfolding miss_path_def
  by (intro ebind_nf at_index_nf select_victim_nf load_line_nf access_word_nf evict_step_nf)
    simp

lemma handle_coherence_nf: "handle_coherence a m \<noteq> Inl AlignmentFault"
  unfolding handle_coherence_def by (intro ebind_nf get_set_index_nf get_tag_nf) simp

lemma process_request_alignment:
  "process_request m a d iw = Inl AlignmentFault \<longleftrightarrow> a mod 4 \<noteq> 0"
proof (cases "a mod 4 = 0")
  case False
  then show ?thesis by (simp add: process_request_def Let_def check_alignment_def)
next
  case True
  have path: "\<And>hw m2 si t off. (case hw of
                     Some w \<Rightarrow> hit_path (count_hit True m2) (unat si) w off d iw
                   | None \<Rightarrow> miss_path (count_hit False m2) a si t off d iw)
                \<noteq> Inl AlignmentFault"
    by (simp add: hit_path_nf miss_path_nf split: option.splits)
  let ?m2 = "count_access iw (record_access \<lparr>ma_address = a, ma_data = d, ma_is_write = iw,
                               ma_cycle = mm_current_cycle m\<rparr> m)"
  have "ebind (get_set_index (mm_config ?m2) a) (\<lambda>set_index.
            ebind (get_tag (mm_config ?m2) a) (\<lambda>t.
            ebind (at_index (mm_sets ?m2) (unat set_index)) (\<lambda>cset.
            ebind (find_hit (ways cset) t 0 (unat (associativity (mm_config ?m2)))) (\<lambda>hit_way.
            ebind (check_bank_conflicts (mm_config ?m2) a) (\<lambda>conflicts.
            ebind (case hit_way of
                     Some w \<Rightarrow>
                       hit_path (count_hit True ?m2) (unat set_index) w
                         (get_offset (mm_config ?m2) a) d iw
                   | None \<Rightarrow>
                       miss_path (count_hit False ?m2) a set_index t
                         (get_offset (mm_config ?m2) a) d iw) (\<lambda>m4.
            ebind (handle_coherence a m4) (\<lambda>m5.
              (let latency = calculate_access_latency (mm_config ?m2) a
                               (hit_way \<noteq> None) + conflicts;
                   cycle = mm_current_cycle m5 + ucast latency
               in Inr (m5\<lparr>mm_current_cycle := cycle\<rparr>, cycle))))))))) \<noteq> Inl AlignmentFault"
    by (intro ebind_nf get_set_index_nf get_tag_nf at_index_nf find_hit_nf
        check_bank_conflicts_nf handle_coherence_nf path) (simp add: Let_def)
  then have "process_request m a d iw \<noteq> Inl AlignmentFault"
    using True
    unfolding process_request_def translate_address_def check_alignment_def
    by (simp only: Let_def if_False simp_thms)
  with True show ?thesis by simp
qed

lemma example_engine_new:
  "new_SimulationEngine
     \<lparr>num_warps = 2, threads_per_warp = 32, cache_size = 1024, cache_line_size = 16,
      sc_memory_latency = 100\<rparr> zero_stats = Inr example_engine"
  by (simp add: new_SimulationEngine_def example_memory_new example_engine_def)

lemma overrun_evaluated:
  "case run earliest_pushed overrun_engine of
     Inr e \<Rightarrow> se_current_time e = 2000000 \<and> \<not> se_running e \<and> length (se_event_queue e) = 1
              \<and> \<not> all_inactive e
   | Inl err \<Rightarrow> False"
  by code_simp

lemma overrun_facts:
  "\<not> isl (run earliest_pushed overrun_engine)
   \<and> se_current_time (projr (run earliest_pushed overrun_engine)) = 2000000
   \<and> \<not> se_running (projr (run earliest_pushed overrun_engine))
   \<and> length (se_event_queue (projr (run earliest_pushed overrun_engine))) = 1
   \<and> \<not> all_inactive (projr (run earliest_pushed overrun_engine))"
  using overrun_evaluated by (cases "run earliest_pushed overrun_engine") simp_all

declare run_loop.simps [simp del]

lemma run_loop_stop:
  "\<not> (se_running e \<and> se_event_queue e \<noteq> []) \<Longrightarrow> run_loop tie k e = Inr e"
  by (subst run_loop.simps) auto

lemma run_loop_step:
  "se_running e \<and> se_event_queue e \<noteq> [] \<Longrightarrow>
     run_loop tie k e =
       (case run_iteration (tie k) e of Inl err \<Rightarrow> Inl err | Inr e' \<Rightarrow> run_loop tie (Suc k) e')"
  by (subst run_loop.simps) simp

lemma run_loop_iterations:
  "\<exists>n. run_loop tie k e = iterations tie k n e
       \<and> (\<forall>i<n. continuing (iterations tie k i e))
       \<and> \<not> continuing (run_loop tie k e)"
proof (induction tie k e rule: run_loop.induct)
  case (1 tie k e)
  show ?case
  proof (cases "se_running e \<and> se_event_queue e \<noteq> []")
    case False
    from run_loop_stop [OF False, of tie k] False
    have "run_loop tie k e = iterations tie k 0 e \<and> (\<forall>i<0. continuing (iterations tie k i e))
        \<and> \<not> continuing (run_loop tie k e)"
      by (simp add: continuing_def)
    then show ?thesis by blast
  next
    case True
    then have c0: "continuing (iterations tie k 0 e)" by (simp add: continuing_def)
    show ?thesis
    proof (cases "run_iteration (tie k) e")
      case (Inl err)
      with run_loop_step [OF True, of tie k] have r: "run_loop tie k e = Inl err" by simp
      have "run_loop tie k e = iterations tie k (Suc 0) e
          \<and> (\<forall>i<Suc 0. continuing (iterations tie k i e)) \<and> \<not> continuing (run_loop tie k e)"
        using Inl r c0 by (simp add: continuing_def)
      then show ?thesis by blast
    next
      case (Inr e1)
      with run_loop_step [OF True, of tie k]
      have r: "run_loop tie k e = run_loop tie (Suc k) e1" by simp
      from "1.IH" [OF True Inr] obtain n where n:
        "run_loop tie (Suc k) e1 = iterations tie (Suc k) n e1"
        "\<forall>i<n. continuing (iterations tie (Suc k) i e1)"
        "\<not> continuing (run_loop tie (Suc k) e1)"
        by blast
      have "\<forall>i<Suc n. continuing (iterations tie k i e)"
      proof (intro allI impI)
        fix i
        assume "i < Suc n"
        then show "continuing (iterations tie k i e)"
          using c0 n(2) Inr by (cases i) simp_all
      qed
      with n(1,3) r Inr have "run_loop tie k e = iterations tie k (Suc n) e
          \<and> (\<forall>i<Suc n. continuing (iterations tie k i e)) \<and> \<not> continuing (run_loop tie k e)"
        by simp
      then show ?thesis by blast
    qed
  qed
qed

lemma iterations_Suc_right:
  "iterations tie k (Suc n) e = ebind (iterations tie k n e) (run_iteration (tie (k + n)))"
proof (induction n arbitrary: k e)
  case 0
  show ?case by (cases "run_iteration (tie k) e") simp_all
next
  case (Suc n)
  show ?case
  proof (cases "run_iteration (tie k) e")
    case (Inl err)
    then show ?thesis by simp
  next
    case (Inr e1)
    have "iterations tie k (Suc (Suc n)) e = iterations tie (Suc k) (Suc n) e1"
      using Inr by simp
    also have "\<dots> = ebind (iterations tie (Suc k) n e1) (run_iteration (tie (Suc k + n)))"
      by (rule Suc.IH)
    also have "\<dots> = ebind (iterations tie k (Suc n) e) (run_iteration (tie (k + Suc n)))"
      using Inr by simp
    finally show ?thesis .
  qed
qed

lemma run_loop_continue:
  "\<forall>i<n. continuing (iterations tie k i e) \<Longrightarrow>
     run_loop tie k e = ebind (iterations tie k n e) (run_loop tie (k + n))"
proof (induction n arbitrary: k e)
  case 0
  show ?case by simp
next
  case (Suc n)
  from Suc.prems have "continuing (iterations tie k 0 e)" by blast
  then have c: "se_running e \<and> se_event_queue e \<noteq> []" by (simp add: continuing_def)
  show ?case
  proof (cases "run_iteration (tie k) e")
    case (Inl err)
    with run_loop_step [OF c, of tie k] show ?thesis by simp
  next
    case (Inr e1)
    have "\<forall>i<n. continuing (iterations tie (Suc k) i e1)"
    proof (intro allI impI)
      fix i
      assume "i < n"
      then have "Suc i < Suc n" by simp
      with Suc.prems have "continuing (iterations tie k (Suc i) e)" by blast
      then show "continuing (iterations tie (Suc k) i e1)" using Inr by simp
    qed
    from Suc.IH [OF this] Inr run_loop_step [OF c, of tie k] show ?thesis by simp
  qed
qed

lemma process_event_running:
  assumes "process_event ev e = Inr e'"
  shows "se_running e' \<longleftrightarrow> se_running e \<and> ev_type ev \<noteq> SIMULATION_END"
proof -
  from assms [unfolded process_event_def ebind_eq_Inr] obtain e1 where
    l: "log_event ev e = Inr e1" and
    d: "(case ev_type ev of
         MEMORY_REQUEST \<Rightarrow>
           (case ev_data ev of
              Transaction tr \<Rightarrow> process_memory_request tr e1
            | Integer n \<Rightarrow> Inl UndefinedBehaviour)
       | MEMORY_RESPONSE \<Rightarrow>
           (case ev_data ev of
              Transaction tr \<Rightarrow> process_memory_response tr e1
            | Integer n \<Rightarrow> Inl UndefinedBehaviour)
       | INSTRUCTION_FETCH \<Rightarrow>
           (case ev_data ev of
              Integer n \<Rightarrow> process_instruction_fetch (ucast n) e1
            | Transaction tr \<Rightarrow> Inl UndefinedBehaviour)
       | WARP_COMPLETE \<Rightarrow>
           (case ev_data ev of
              Integer n \<Rightarrow> process_warp_complete (ucast n) e1
            | Transaction tr \<Rightarrow> Inl UndefinedBehaviour)
       | SIMULATION_END \<Rightarrow> Inr (e1\<lparr>se_running := False\<rparr>)) = Inr e'"
    by (elim exE conjE) (rule that)
  note f = log_event_frame(3) [OF l]
  have "se_running e' \<longleftrightarrow> se_running e1 \<and> ev_type ev \<noteq> SIMULATION_END"
  proof (cases "ev_type ev")
    case MEMORY_REQUEST
    with d obtain tr where "process_memory_request tr e1 = Inr e'"
      by (cases "ev_data ev") auto
    from process_memory_request_pushes [OF this] MEMORY_REQUEST show ?thesis by simp
  next
    case MEMORY_RESPONSE
    with d obtain tr where "process_memory_response tr e1 = Inr e'"
      by (cases "ev_data ev") auto
    from process_memory_response_pushes [OF this] MEMORY_RESPONSE show ?thesis by simp
  next
    case INSTRUCTION_FETCH
    with d obtain n where "process_instruction_fetch n e1 = Inr e'"
      by (cases "ev_data ev") auto
    from process_instruction_fetch_pushes [OF this] INSTRUCTION_FETCH show ?thesis by simp
  next
    case WARP_COMPLETE
    with d obtain n where "process_warp_complete n e1 = Inr e'"
      by (cases "ev_data ev") auto
    from process_warp_complete_pushes [OF this] WARP_COMPLETE show ?thesis by simp
  next
    case SIMULATION_END
    with d show ?thesis by auto
  qed
  with f show ?thesis by simp
qed

lemma run_iteration_running:
  assumes "run_iteration c e = Inr e'" and "se_running e"
  shows "se_running e' \<longleftrightarrow>
           ev_type (top c (se_event_queue e)) \<noteq> SIMULATION_END
           \<and> ev_time (top c (se_event_queue e)) < CYCLE_LIMIT \<and> \<not> all_inactive e'"
    and "se_current_time e' = ev_time (top c (se_event_queue e))"
proof -
  let ?ev = "top c (se_event_queue e)"
  let ?e1 = "e\<lparr>se_event_queue := pop c (se_event_queue e), se_current_time := ev_time ?ev\<rparr>"
  from assms(1) [unfolded run_iteration_def Let_def ebind_eq_Inr] obtain e2 where
    p: "process_event ?ev ?e1 = Inr e2" and
    r: "Inr (if CYCLE_LIMIT \<le> se_current_time (if se_current_time e2 mod 1000 = 0 then update_statistics e2 else e2)
               \<or> all_inactive (if se_current_time e2 mod 1000 = 0 then update_statistics e2 else e2)
             then (if se_current_time e2 mod 1000 = 0 then update_statistics e2 else e2)\<lparr>se_running := False\<rparr>
             else (if se_current_time e2 mod 1000 = 0 then update_statistics e2 else e2))
        = (Inr e' :: error + SimulationEngine)"
    by (elim exE conjE) (rule that)
  from process_event_pushes(1) [OF p] have t2: "se_current_time e2 = ev_time ?ev"
    by (simp add: pushes_def)
  from process_event_running [OF p] assms(2)
  have r2: "se_running e2 \<longleftrightarrow> ev_type ?ev \<noteq> SIMULATION_END" by simp
  let ?e3 = "if se_current_time e2 mod 1000 = 0 then update_statistics e2 else e2"
  have e3: "se_current_time ?e3 = ev_time ?ev" "se_running ?e3 = se_running e2"
    using t2 by simp_all
  from r have e': "e' = (if CYCLE_LIMIT \<le> se_current_time ?e3 \<or> all_inactive ?e3
                         then ?e3\<lparr>se_running := False\<rparr> else ?e3)"
    by simp
  have ai: "all_inactive e' = all_inactive ?e3"
    unfolding e' by (simp add: all_inactive_def)
  show "se_current_time e' = ev_time ?ev"
    unfolding e' using e3(1) by simp
  show "se_running e' \<longleftrightarrow>
           ev_type ?ev \<noteq> SIMULATION_END \<and> ev_time ?ev < CYCLE_LIMIT \<and> \<not> all_inactive e'"
    unfolding ai unfolding e' using e3 r2 by (auto simp: not_le)
qed

lemma word_access_evaluated:
  "case dpi_process_memory_request example_wrapper word_access of
     Inr (w, r) \<Rightarrow> r = SUCCESS
   | Inl err \<Rightarrow> False"
  by code_simp

text \<open>
  C7, as stated, fails. The halfword read at address 2 is naturally aligned (2 is a multiple
  of its size 2), and yet \<open>validate_address\<close> raises the alignment error, the wrapper
  answers \<open>MEMORY_ERROR\<close>, and the alignment assertion of \<open>process_request\<close> fails at
  that address.
\<close>

theorem natural_alignment_still_faults:
  "dpi_size halfword_access = 2
   \<and> naturally_aligned halfword_access
   \<and> validate_address (dpi_address halfword_access) = Inl AlignmentFault
   \<and> dpi_process_memory_request example_wrapper halfword_access
       = Inr (example_wrapper, MEMORY_ERROR)
   \<and> process_request example_memory (dpi_address halfword_access) (dpi_data halfword_access)
        False = Inl AlignmentFault"
  by (simp add: halfword_access_def naturally_aligned_def validate_address_def
      dpi_process_memory_request_def example_wrapper_def process_request_alignment)

text \<open>
  C7, amended. The size of an access plays no part: \<open>validate_address\<close> and
  \<open>process_request\<close> fail with the alignment error exactly when the address is not a
  multiple of 4. An initialised wrapper answers a request at such an address with
  \<open>MEMORY_ERROR\<close> and leaves its state as it was, and a request at a multiple of 4 raises
  no alignment error.
\<close>

theorem alignment_fault_iff_not_word_aligned:
  "(validate_address a = Inl AlignmentFault \<longleftrightarrow> a mod 4 \<noteq> 0)
   \<and> (process_request m a d iw = Inl AlignmentFault \<longleftrightarrow> a mod 4 \<noteq> 0)
   \<and> (dw_initialized w \<and> dw_sim_engine w = Some se \<and> dw_memory_model w = Some mm
        \<and> dpi_address t mod 4 \<noteq> 0
        \<longrightarrow> dpi_process_memory_request w t = Inr (w, MEMORY_ERROR))
   \<and> (dw_initialized w \<and> dw_sim_engine w = Some se \<and> dw_memory_model w = Some mm
        \<and> dpi_address t mod 4 = 0
        \<longrightarrow> dpi_process_memory_request w t \<noteq> Inl AlignmentFault)"
proof (intro conjI impI)
  show "validate_address a = Inl AlignmentFault \<longleftrightarrow> a mod 4 \<noteq> 0"
    by (simp add: validate_address_def)
  show "process_request m a d iw = Inl AlignmentFault \<longleftrightarrow> a mod 4 \<noteq> 0"
    by (rule process_request_alignment)
next
  assume "dw_initialized w \<and> dw_sim_engine w = Some se \<and> dw_memory_model w = Some mm
        \<and> dpi_address t mod 4 \<noteq> 0"
  then show "dpi_process_memory_request w t = Inr (w, MEMORY_ERROR)"
    by (simp add: dpi_process_memory_request_def validate_address_def)
next
  assume a: "dw_initialized w \<and> dw_sim_engine w = Some se \<and> dw_memory_model w = Some mm
        \<and> dpi_address t mod 4 = 0"
  have p: "process_request mm (dpi_address t) (dpi_data t) (dpi_is_write t \<noteq> 0) \<noteq> Inl AlignmentFault"
    using a by (simp add: process_request_alignment)
  show "dpi_process_memory_request w t \<noteq> Inl AlignmentFault"
  proof (cases "validate_warp_id se (dpi_warp_id t)")
    case (Inl ex)
    with a show ?thesis by (simp add: dpi_process_memory_request_def validate_address_def)
  next
    case (Inr u)
    have "ebind (process_request mm (dpi_address t) (dpi_data t)
                                (dpi_is_write t \<noteq> 0)) (\<lambda>(mm', completion_time).
                         (let se' =
                                (if dpi_is_write t = 0 then
                                   schedule_event MEMORY_RESPONSE
                                     (completion_time - se_current_time se)
                                     (Transaction
                                        \<lparr>mt_address = dpi_address t, mt_data = dpi_data t,
                                         mt_is_write = False, mt_size = dpi_size t,
                                         mt_warp_id = dpi_warp_id t,
                                         mt_thread_mask = dpi_thread_mask t\<rparr>) se
                                 else se)
                          in Inr (w\<lparr>dw_sim_engine := Some se', dw_memory_model := Some mm'\<rparr>,
                                  SUCCESS))) \<noteq> Inl AlignmentFault"
      by (intro ebind_nf p) (simp add: Let_def split: prod.splits)
    with a Inr show ?thesis by (simp add: dpi_process_memory_request_def validate_address_def)
  qed
qed

theorem alignment_fault_iff_not_word_aligned_witness:
  "validate_address 2 = Inl AlignmentFault
   \<and> process_request example_memory 2 0 False = Inl AlignmentFault
   \<and> validate_address 64 = Inr ()
   \<and> dw_initialized example_wrapper
   \<and> dpi_address halfword_access mod 4 \<noteq> 0
   \<and> dpi_process_memory_request example_wrapper halfword_access = Inr (example_wrapper, MEMORY_ERROR)
   \<and> dpi_address word_access mod 4 = 0
   \<and> dpi_process_memory_request example_wrapper word_access \<noteq> Inl AlignmentFault
   \<and> snd (projr (dpi_process_memory_request example_wrapper word_access)) = SUCCESS"
proof -
  have s: "snd (projr (dpi_process_memory_request example_wrapper word_access)) = SUCCESS"
    using word_access_evaluated
    by (cases "dpi_process_memory_request example_wrapper word_access") auto
  have v: "validate_address 64 = Inr ()" by (simp add: validate_address_def)
  from alignment_fault_iff_not_word_aligned [of 2 example_memory 0 False example_wrapper
      example_engine example_memory halfword_access]
    alignment_fault_iff_not_word_aligned [of 64 example_memory 0 False example_wrapper
      example_engine example_memory word_access] s v
  show ?thesis
    by (simp add: example_wrapper_def halfword_access_def word_access_def)
qed

text \<open>
  C8, as stated, fails. The limit is the literal 1000000, below 2000000. With the
  completion of warp 1 at cycle 5, a fetch at cycle 2000000 and a fetch at cycle 3000000
  in the queue (no two events of the same time), \<open>run\<close> processes the fetch at cycle
  2000000, which lies beyond the limit, and returns normally: no error, the clock at
  2000000, \<open>running\<close> cleared, warp 0 still active, the last fetch still in the queue.
\<close>

theorem run_beyond_cycle_limit_returns_normally:
  "CYCLE_LIMIT < 2000000
   \<and> \<not> isl (run earliest_pushed overrun_engine)
   \<and> se_current_time (projr (run earliest_pushed overrun_engine)) = 2000000
   \<and> \<not> se_running (projr (run earliest_pushed overrun_engine))
   \<and> \<not> all_inactive (projr (run earliest_pushed overrun_engine))
   \<and> se_event_queue (projr (run earliest_pushed overrun_engine)) \<noteq> []"
proof -
  have "CYCLE_LIMIT < 2000000" by (simp add: CYCLE_LIMIT_def)
  moreover from overrun_facts
  have "se_event_queue (projr (run earliest_pushed overrun_engine)) \<noteq> []"
    by (cases "se_event_queue (projr (run earliest_pushed overrun_engine))") simp_all
  ultimately show ?thesis using overrun_facts by simp
qed

text \<open>
  C8, amended. Whatever the heap yields among events of the same time (\<open>tie\<close>): \<open>run\<close> sets
  \<open>running\<close> and is the loop body applied \<open>n\<close> times in a row, for the \<open>n\<close> at which the loop
  condition (\<open>running\<close> set and the queue not empty) first fails or the body has aborted;
  it always returns. One application of the body takes an event of least time out of the
  queue, sets the clock to its time, and leaves \<open>running\<close> set exactly when that event is
  no \<open>SIMULATION_END\<close>, its time is below the limit of 1000000 cycles, and some warp is
  still active. So when the body has processed an event at or beyond the limit, \<open>run\<close>
  returns the state the body left, normally.
\<close>

theorem run_stops_and_returns:
  "(\<exists>n. run tie e = iterations tie 0 n (e\<lparr>se_running := True\<rparr>)
        \<and> (\<forall>i<n. continuing (iterations tie 0 i (e\<lparr>se_running := True\<rparr>)))
        \<and> \<not> continuing (run tie e))
   \<and> (se_running s \<and> se_event_queue s \<noteq> [] \<and> run_iteration c s = Inr s1 \<longrightarrow>
        top c (se_event_queue s) \<in> set (se_event_queue s)
        \<and> (\<forall>y \<in> set (se_event_queue s). ev_time (top c (se_event_queue s)) \<le> ev_time y)
        \<and> se_current_time s1 = ev_time (top c (se_event_queue s))
        \<and> (se_running s1 \<longleftrightarrow>
             ev_type (top c (se_event_queue s)) \<noteq> SIMULATION_END
             \<and> ev_time (top c (se_event_queue s)) < CYCLE_LIMIT \<and> \<not> all_inactive s1))
   \<and> ((\<forall>i\<le>m. continuing (iterations tie 0 i (e\<lparr>se_running := True\<rparr>)))
        \<and> iterations tie 0 m (e\<lparr>se_running := True\<rparr>) = Inr em
        \<and> run_iteration (tie m) em = Inr e1
        \<and> CYCLE_LIMIT \<le> ev_time (top (tie m) (se_event_queue em))
        \<longrightarrow> run tie e = Inr e1)"
proof (intro conjI impI)
  let ?e0 = "e\<lparr>se_running := True\<rparr>"
  from run_loop_iterations [of tie 0 ?e0] obtain n where n:
    "run_loop tie 0 ?e0 = iterations tie 0 n ?e0"
    "\<forall>i<n. continuing (iterations tie 0 i ?e0)"
    "\<not> continuing (run_loop tie 0 ?e0)"
    by blast
  have r: "run tie e = run_loop tie 0 ?e0"
    by (cases "run_loop tie 0 ?e0") (simp_all add: run_def calculate_performance_metrics_def)
  from n r have "run tie e = iterations tie 0 n ?e0
        \<and> (\<forall>i<n. continuing (iterations tie 0 i ?e0)) \<and> \<not> continuing (run tie e)"
    by simp
  then show "\<exists>n. run tie e = iterations tie 0 n ?e0
        \<and> (\<forall>i<n. continuing (iterations tie 0 i ?e0)) \<and> \<not> continuing (run tie e)"
    by blast
next
  assume a: "se_running s \<and> se_event_queue s \<noteq> [] \<and> run_iteration c s = Inr s1"
  then have i: "run_iteration c s = Inr s1" and r: "se_running s"
    and q: "se_event_queue s \<noteq> []" by simp_all
  show "top c (se_event_queue s) \<in> set (se_event_queue s)" by (rule top_mem [OF q])
  show "\<forall>y \<in> set (se_event_queue s). ev_time (top c (se_event_queue s)) \<le> ev_time y"
    using top_least [OF q] by blast
  from run_iteration_running(2) [OF i r]
  show "se_current_time s1 = ev_time (top c (se_event_queue s))" .
  from run_iteration_running(1) [OF i r]
  show "se_running s1 \<longleftrightarrow>
             ev_type (top c (se_event_queue s)) \<noteq> SIMULATION_END
             \<and> ev_time (top c (se_event_queue s)) < CYCLE_LIMIT \<and> \<not> all_inactive s1" .
next
  let ?e0 = "e\<lparr>se_running := True\<rparr>"
  assume a: "(\<forall>i\<le>m. continuing (iterations tie 0 i ?e0))
        \<and> iterations tie 0 m ?e0 = Inr em
        \<and> run_iteration (tie m) em = Inr e1
        \<and> CYCLE_LIMIT \<le> ev_time (top (tie m) (se_event_queue em))"
  then have c: "\<forall>i<Suc m. continuing (iterations tie 0 i ?e0)"
    and em: "iterations tie 0 m ?e0 = Inr em"
    and i: "run_iteration (tie m) em = Inr e1"
    and lim: "CYCLE_LIMIT \<le> ev_time (top (tie m) (se_event_queue em))"
    by (simp_all add: less_Suc_eq_le)
  from a em have "continuing (Inr em)" by (metis order_refl)
  then have rm: "se_running em" by (simp add: continuing_def)
  from run_iteration_running(1) [OF i rm] lim have nr: "\<not> se_running e1"
    by (simp add: not_less [symmetric])
  have "iterations tie 0 (Suc m) ?e0 = Inr e1"
    using iterations_Suc_right [of tie 0 m ?e0] em i by simp
  with run_loop_continue [OF c] have "run_loop tie 0 ?e0 = run_loop tie (Suc m) e1" by simp
  also have "\<dots> = Inr e1" using nr by (intro run_loop_stop) simp
  finally show "run tie e = Inr e1"
    by (simp add: run_def calculate_performance_metrics_def)
qed

lemma overrun_iterations:
  "(case iterations earliest_pushed 0 1 (overrun_engine\<lparr>se_running := True\<rparr>) of
      Inr e \<Rightarrow> se_running e \<and> length (se_event_queue e) = 2 \<and> se_current_time e = 5
              \<and> ev_time (top (earliest_pushed 1) (se_event_queue e)) = 2000000
              \<and> iterations earliest_pushed 0 2 (overrun_engine\<lparr>se_running := True\<rparr>)
                  = run_iteration (earliest_pushed 1) e
    | Inl err \<Rightarrow> False)
   \<and> (case iterations earliest_pushed 0 2 (overrun_engine\<lparr>se_running := True\<rparr>) of
        Inr e \<Rightarrow> \<not> se_running e \<and> se_current_time e = 2000000
      | Inl err \<Rightarrow> False)"
  by code_simp

theorem run_stops_and_returns_witness:
  "run earliest_pushed overrun_engine
     = iterations earliest_pushed 0 2 (overrun_engine\<lparr>se_running := True\<rparr>)
   \<and> continuing (iterations earliest_pushed 0 0 (overrun_engine\<lparr>se_running := True\<rparr>))
   \<and> continuing (iterations earliest_pushed 0 1 (overrun_engine\<lparr>se_running := True\<rparr>))
   \<and> \<not> continuing (run earliest_pushed overrun_engine)
   \<and> run_iteration (earliest_pushed 1)
        (projr (iterations earliest_pushed 0 1 (overrun_engine\<lparr>se_running := True\<rparr>)))
       = Inr (projr (run earliest_pushed overrun_engine))
   \<and> CYCLE_LIMIT
       \<le> ev_time (top (earliest_pushed 1)
            (se_event_queue
               (projr (iterations earliest_pushed 0 1 (overrun_engine\<lparr>se_running := True\<rparr>)))))
   \<and> se_current_time (projr (run earliest_pushed overrun_engine)) = 2000000
   \<and> \<not> se_running (projr (run earliest_pushed overrun_engine))"
proof -
  let ?e0 = "overrun_engine\<lparr>se_running := True\<rparr>"
  let ?t = earliest_pushed
  obtain em where em: "iterations ?t 0 1 ?e0 = Inr em" "se_running em"
    "length (se_event_queue em) = 2" "ev_time (top (?t 1) (se_event_queue em)) = 2000000"
    "iterations ?t 0 2 ?e0 = run_iteration (?t 1) em"
    using overrun_iterations by (cases "iterations ?t 0 1 ?e0") auto
  obtain e2 where e2: "iterations ?t 0 2 ?e0 = Inr e2" "\<not> se_running e2"
    "se_current_time e2 = 2000000"
    using overrun_iterations by (cases "iterations ?t 0 2 ?e0") auto
  have q: "se_event_queue em \<noteq> []" using em(3) by auto
  have c0: "continuing (iterations ?t 0 0 ?e0)"
    by (simp add: continuing_def overrun_engine_def)
  have c1: "continuing (iterations ?t 0 1 ?e0)"
    unfolding em(1) using em(2) q by (simp add: continuing_def)
  have c: "\<forall>i\<le>1. continuing (iterations ?t 0 i ?e0)"
  proof (intro allI impI)
    fix i :: nat
    assume "i \<le> 1"
    then have "i = 0 \<or> i = 1" by auto
    with c0 c1 show "continuing (iterations ?t 0 i ?e0)" by auto
  qed
  have i: "run_iteration (?t 1) em = Inr e2" using em(5) e2(1) by simp
  have lim: "CYCLE_LIMIT \<le> ev_time (top (?t 1) (se_event_queue em))"
    unfolding em(4) by (simp add: CYCLE_LIMIT_def)
  from run_stops_and_returns [where tie = ?t and e = overrun_engine and m = 1 and em = em
      and ?e1.0 = e2 and s = em and c = "?t 1" and ?s1.0 = e2] c em(1) i lim
  have r: "run ?t overrun_engine = Inr e2" and nc: "\<not> continuing (run ?t overrun_engine)"
    by blast+
  from r e2 em c0 c1 nc i lim show ?thesis by simp
qed

text \<open>
  C10. The instance pointer of either static callback is null, so a call of
  \<open>memory_request_callback\<close> or of \<open>instruction_complete_callback\<close> returns the engine
  as it was: event queue, warp states and statistics are unchanged.
\<close>

theorem callbacks_change_nothing:
  "memory_request_callback_instance = None
   \<and> instruction_complete_callback_instance = None
   \<and> memory_request_callback address d is_write warp_id tmask e = e
   \<and> instruction_complete_callback warp_id pcv instruction e = Inr e
   \<and> se_event_queue (memory_request_callback address d is_write warp_id tmask e) = se_event_queue e
   \<and> se_warp_states (memory_request_callback address d is_write warp_id tmask e) = se_warp_states e
   \<and> se_stats (memory_request_callback address d is_write warp_id tmask e) = se_stats e"
  by (simp add: memory_request_callback_def instruction_complete_callback_def
      memory_request_callback_instance_def instruction_complete_callback_instance_def)

end
